theory Spec2Isabelle
  imports Main "HOL-Library.Product_Lexorder"
begin

section \<open>The prayer-participation store of \<^verbatim>\<open>server.js\<close>\<close>

text \<open>
  The server keeps all of its state in PostgreSQL. A table is modelled as the list of its
  rows, a handler as a function from the store (and the value of \<^verbatim>\<open>NOW()\<close>) to the new
  store and the HTTP response. The handlers run one after the other (one request at a
  time); interleavings of concurrent requests are outside this model.

  Conventions:
  \<^item> \<^verbatim>\<open>INTEGER\<close> columns are \<open>int\<close>, timestamps are \<open>int\<close> (any linear clock);
    the range limit of \<^verbatim>\<open>INTEGER\<close> is not modelled, and the counters are never
    null (the server creates every request with both counters 0).
  \<^item> The \<^verbatim>\<open>:id\<close> path parameter is the integer it denotes. A parameter that is not
    an integer makes the first statement fail, which is a storage fault (below).
  \<^item> \<^verbatim>\<open>device_id\<close> of the request body is \<open>string option\<close>: \<open>None\<close> when the field is
    missing or null. The test \<^verbatim>\<open>!device_id\<close> holds for \<open>None\<close> and for the empty string.
    Values of the field that are not strings are outside the model.
  \<^item> A storage fault is a rejected \<^verbatim>\<open>pool.query\<close> promise. The fault oracle
    \<open>fl :: nat option\<close> of a handler names the statement (counted from 0 in the order the
    handler issues them) that is rejected; \<open>None\<close> means that every statement succeeds.
    The rejected statement changes nothing, and control passes to the handler's
    \<^verbatim>\<open>catch\<close> block.
  \<^item> The surrogate key \<^verbatim>\<open>id SERIAL\<close> of \<^verbatim>\<open>device_prayers\<close> is never read by the
    server and is left out of the row.
  \<^item> The handlers modelled are those that read or write \<^verbatim>\<open>prayer_requests\<close> and
    \<^verbatim>\<open>device_prayers\<close> after a request was created (join, start, stop, the legacy pray,
    both completes, the clean-up, the reset, the statistics), and the topic catalog.
    Creating a request inserts a row under a new identifier of the sequence and no link;
    it is not among them, and neither are the notification routes.
\<close>

subsection \<open>Tables\<close>

type_synonym timestamp = int

record prayer_request =
  pr_id :: int
  topic_id :: int
  device_id :: "string option"
  description :: "string option"
  prayer_count :: int
  active_prayers :: int
  created_at :: timestamp
  expires_at :: timestamp

record device_prayer =
  dp_device_id :: string
  prayer_request_id :: int
  joined_at :: timestamp
  completed_at :: "timestamp option"

record store =
  prayer_requests :: "prayer_request list"
  device_prayers :: "device_prayer list"

record prayer_topic =
  t_id :: int
  title :: string
  category :: string
  parent_id :: "int option"

subsection \<open>Responses\<close>

record subcategory =
  sub_id :: int
  sub_title :: string

record topic_group =
  g_id :: int
  g_title :: "string option"
  subcategories :: "subcategory list"

datatype body =
    ErrorBody string
  | FailureBody string
  | MessageBody string
  | RequestBody "prayer_request option"
  | StatsBody int int int
  | TopicsBody "topic_group list"
  | CleanupBody nat
  | ResetBody nat

record response =
  status :: nat
  body :: body
  logged :: "string list"

definition reply :: "nat \<Rightarrow> body \<Rightarrow> response" where
  "reply c b = \<lparr>status = c, body = b, logged = []\<rparr>"

text \<open>
  The routes that query the database, and the \<^verbatim>\<open>catch\<close> block of each: the status,
  the body and the prefix of the line written with \<^verbatim>\<open>console.error\<close>. The two
  database set-up routes add \<^verbatim>\<open>err.message\<close> to their body as \<^verbatim>\<open>details\<close>, which
  is left out here.
\<close>

datatype endpoint =
    POST_init_database
  | POST_migrate_database
  | GET_prayer_topics
  | POST_prayer_requests
  | GET_prayer_requests
  | POST_join
  | POST_start_praying
  | POST_pray
  | POST_stop_praying
  | POST_complete
  | DELETE_complete
  | GET_stats
  | GET_device_prayers
  | DELETE_cleanup_expired
  | POST_reset_active_prayers
  | POST_register_device
  | POST_send_prayer_request
  | POST_send_prayer_joined
  | POST_send_daily_reminder
  | GET_devices
  | GET_device_info
  | POST_send_test_notification

definition internal_error :: "string \<Rightarrow> response" where
  "internal_error msg =
     \<lparr>status = 500, body = ErrorBody ''Internal server error'', logged = [msg]\<rparr>"

fun on_failure :: "endpoint \<Rightarrow> response" where
  "on_failure POST_init_database =
     \<lparr>status = 500, body = FailureBody ''Failed to initialize database'',
      logged = [''Error initializing database:'']\<rparr>"
| "on_failure POST_migrate_database =
     \<lparr>status = 500, body = FailureBody ''Failed to migrate database'',
      logged = [''Error migrating database:'']\<rparr>"
| "on_failure GET_prayer_topics = internal_error ''Error fetching prayer topics:''"
| "on_failure POST_prayer_requests = internal_error ''Error creating prayer request:''"
| "on_failure GET_prayer_requests = internal_error ''Error fetching prayer requests:''"
| "on_failure POST_join = internal_error ''Error joining prayer:''"
| "on_failure POST_start_praying = internal_error ''Error starting active prayer:''"
| "on_failure POST_pray = internal_error ''Error updating prayer count:''"
| "on_failure POST_stop_praying = internal_error ''Error stopping active prayer:''"
| "on_failure POST_complete = internal_error ''Error completing prayer:''"
| "on_failure DELETE_complete = internal_error ''Error completing prayer:''"
| "on_failure GET_stats =
     \<lparr>status = 500, body = StatsBody 0 0 0, logged = [''Error fetching prayer stats:'']\<rparr>"
| "on_failure GET_device_prayers = internal_error ''Error fetching device prayers:''"
| "on_failure DELETE_cleanup_expired = internal_error ''Error cleaning up expired requests:''"
| "on_failure POST_reset_active_prayers = internal_error ''Error resetting active prayers:''"
| "on_failure POST_register_device = internal_error ''Error registering device:''"
| "on_failure POST_send_prayer_request = internal_error ''Error sending prayer request:''"
| "on_failure POST_send_prayer_joined =
     internal_error ''Error sending prayer joined notification:''"
| "on_failure POST_send_daily_reminder = internal_error ''Error sending daily reminder:''"
| "on_failure GET_devices = internal_error ''Error fetching devices:''"
| "on_failure GET_device_info = internal_error ''Error fetching device info:''"
| "on_failure POST_send_test_notification =
     internal_error ''Error sending test notification:''"

subsection \<open>SQL statements on lists of rows\<close>

text \<open>\<^verbatim>\<open>UPDATE t SET ... WHERE P\<close>: the table afterwards.\<close>

definition update_where :: "('a \<Rightarrow> bool) \<Rightarrow> ('a \<Rightarrow> 'a) \<Rightarrow> 'a list \<Rightarrow> 'a list" where
  "update_where P f rows = map (\<lambda>r. if P r then f r else r) rows"

text \<open>\<^verbatim>\<open>UPDATE t SET ... WHERE P RETURNING *\<close>: the rows it returns.\<close>

definition returning :: "('a \<Rightarrow> bool) \<Rightarrow> ('a \<Rightarrow> 'a) \<Rightarrow> 'a list \<Rightarrow> 'a list" where
  "returning P f rows = map f (filter P rows)"

text \<open>\<^verbatim>\<open>rows[0]\<close>, which is \<^verbatim>\<open>undefined\<close> on an empty result.\<close>

fun first_row :: "'a list \<Rightarrow> 'a option" where
  "first_row [] = None"
| "first_row (r # _) = Some r"

text \<open>\<^verbatim>\<open>!device_id\<close> is false.\<close>

fun present :: "string option \<Rightarrow> bool" where
  "present None = False"
| "present (Some d) = (d \<noteq> [])"

definition device_id_required :: response where
  "device_id_required = reply 400 (ErrorBody ''Device ID is required'')"

definition not_found_or_expired :: response where
  "not_found_or_expired = reply 404 (ErrorBody ''Prayer request not found or expired'')"

definition not_found_for_device :: response where
  "not_found_for_device =
     reply 404 (ErrorBody ''Prayer not found for this device or already completed'')"

definition is_active :: "timestamp \<Rightarrow> prayer_request \<Rightarrow> bool" where
  "is_active now r = (expires_at r > now)"

subsection \<open>The participation handlers\<close>

text \<open>\<^verbatim>\<open>POST /api/prayer-requests/:id/join\<close>\<close>

definition join_prayer ::
  "store \<Rightarrow> timestamp \<Rightarrow> nat option \<Rightarrow> int \<Rightarrow> string option \<Rightarrow> store \<times> response" where
  "join_prayer s now fl rid dev =
     (case dev of
        None \<Rightarrow> (s, device_id_required)
      | Some d \<Rightarrow>
          if d = [] then (s, device_id_required)
          else if fl = Some 0 then (s, on_failure POST_join)
          else if filter (\<lambda>r. pr_id r = rid \<and> is_active now r) (prayer_requests s) = []
            then (s, not_found_or_expired)
          else if fl = Some 1 then (s, on_failure POST_join)
          else if filter (\<lambda>l. dp_device_id l = d \<and> prayer_request_id l = rid)
                    (device_prayers s) = []
            then
              (if fl = Some 2 then (s, on_failure POST_join)
               else
                 let s1 = s\<lparr>device_prayers := device_prayers s @
                            [\<lparr>dp_device_id = d, prayer_request_id = rid,
                              joined_at = now, completed_at = None\<rparr>]\<rparr>
                 in if fl = Some 3 then (s1, on_failure POST_join)
                    else
                      let bump = (\<lambda>r. r\<lparr>prayer_count := prayer_count r + 1\<rparr>)
                      in (s1\<lparr>prayer_requests :=
                              update_where (\<lambda>r. pr_id r = rid) bump (prayer_requests s1)\<rparr>,
                          reply 200 (RequestBody (first_row
                            (returning (\<lambda>r. pr_id r = rid) bump (prayer_requests s1))))))
          else if fl = Some 2 then (s, on_failure POST_join)
          else (s, reply 200 (RequestBody (first_row
                  (filter (\<lambda>r. pr_id r = rid) (prayer_requests s))))))"

text \<open>\<^verbatim>\<open>POST /api/prayer-requests/:id/start-praying\<close>\<close>

definition start_praying ::
  "store \<Rightarrow> timestamp \<Rightarrow> nat option \<Rightarrow> int \<Rightarrow> string option \<Rightarrow> store \<times> response" where
  "start_praying s now fl rid dev =
     (if \<not> present dev then (s, device_id_required)
      else if fl = Some 0 then (s, on_failure POST_start_praying)
      else
        let hit = (\<lambda>r. pr_id r = rid \<and> is_active now r);
            bump = (\<lambda>r. r\<lparr>active_prayers := active_prayers r + 1\<rparr>);
            s1 = s\<lparr>prayer_requests := update_where hit bump (prayer_requests s)\<rparr>;
            rows = returning hit bump (prayer_requests s)
        in if rows = [] then (s1, not_found_or_expired)
           else (s1, reply 200 (RequestBody (first_row rows))))"

text \<open>\<^verbatim>\<open>POST /api/prayer-requests/:id/pray\<close> (legacy)\<close>

definition pray :: "store \<Rightarrow> timestamp \<Rightarrow> nat option \<Rightarrow> int \<Rightarrow> store \<times> response" where
  "pray s now fl rid =
     (if fl = Some 0 then (s, on_failure POST_pray)
      else
        let hit = (\<lambda>r. pr_id r = rid \<and> is_active now r);
            bump = (\<lambda>r. r\<lparr>prayer_count := prayer_count r + 1,
                          active_prayers := active_prayers r + 1\<rparr>);
            s1 = s\<lparr>prayer_requests := update_where hit bump (prayer_requests s)\<rparr>;
            rows = returning hit bump (prayer_requests s)
        in if rows = [] then (s1, not_found_or_expired)
           else (s1, reply 200 (RequestBody (first_row rows))))"

text \<open>\<^verbatim>\<open>POST /api/prayer-requests/:id/stop-praying\<close>\<close>

definition stop_praying ::
  "store \<Rightarrow> timestamp \<Rightarrow> nat option \<Rightarrow> int \<Rightarrow> string option \<Rightarrow> store \<times> response" where
  "stop_praying s now fl rid dev =
     (if \<not> present dev then (s, device_id_required)
      else if fl = Some 0 then (s, on_failure POST_stop_praying)
      else
        let hit = (\<lambda>r. pr_id r = rid \<and> is_active now r);
            drop = (\<lambda>r. r\<lparr>active_prayers := max (active_prayers r - 1) 0\<rparr>);
            s1 = s\<lparr>prayer_requests := update_where hit drop (prayer_requests s)\<rparr>;
            rows = returning hit drop (prayer_requests s)
        in if rows = [] then (s1, not_found_or_expired)
           else (s1, reply 200 (RequestBody (first_row rows))))"

text \<open>\<^verbatim>\<open>POST /api/prayer-requests/:id/complete\<close>\<close>

definition complete_prayer ::
  "store \<Rightarrow> timestamp \<Rightarrow> nat option \<Rightarrow> int \<Rightarrow> string option \<Rightarrow> store \<times> response" where
  "complete_prayer s now fl rid dev =
     (if \<not> present dev then (s, device_id_required)
      else if fl = Some 0 then (s, on_failure POST_complete)
      else
        let hit = (\<lambda>l. Some (dp_device_id l) = dev \<and> prayer_request_id l = rid
                        \<and> completed_at l = None);
            mark = (\<lambda>l. l\<lparr>completed_at := Some now\<rparr>);
            s1 = s\<lparr>device_prayers := update_where hit mark (device_prayers s)\<rparr>;
            rows = returning hit mark (device_prayers s)
        in if rows = [] then (s1, not_found_for_device)
           else if fl = Some 1 then (s1, on_failure POST_complete)
           else
             (s1\<lparr>prayer_requests :=
                   update_where (\<lambda>r. pr_id r = rid)
                     (\<lambda>r. r\<lparr>active_prayers := max (active_prayers r - 1) 0\<rparr>)
                     (prayer_requests s1)\<rparr>,
              reply 200 (MessageBody ''Prayer completed successfully'')))"

text \<open>\<^verbatim>\<open>DELETE /api/prayer-requests/:id/complete\<close> (legacy)\<close>

definition complete_legacy :: "store \<Rightarrow> timestamp \<Rightarrow> nat option \<Rightarrow> int \<Rightarrow> store \<times> response" where
  "complete_legacy s now fl rid =
     (if fl = Some 0 then (s, on_failure DELETE_complete)
      else
        let hit = (\<lambda>r. pr_id r = rid \<and> is_active now r);
            drop = (\<lambda>r. r\<lparr>active_prayers := max (active_prayers r - 1) 0\<rparr>);
            s1 = s\<lparr>prayer_requests := update_where hit drop (prayer_requests s)\<rparr>;
            rows = returning hit drop (prayer_requests s)
        in if rows = [] then (s1, not_found_or_expired)
           else (s1, reply 200 (MessageBody ''Prayer completed successfully'')))"

text \<open>
  \<^verbatim>\<open>DELETE /api/cleanup-expired\<close>: the rows of \<^verbatim>\<open>device_prayers\<close> that reference a
  deleted request go with it (\<^verbatim>\<open>ON DELETE CASCADE\<close>).
\<close>

definition cleanup_expired :: "store \<Rightarrow> timestamp \<Rightarrow> nat option \<Rightarrow> store \<times> response" where
  "cleanup_expired s now fl =
     (if fl = Some 0 then (s, on_failure DELETE_cleanup_expired)
      else
        let gone = filter (\<lambda>r. expires_at r \<le> now) (prayer_requests s)
        in (\<lparr>prayer_requests = filter (\<lambda>r. \<not> expires_at r \<le> now) (prayer_requests s),
             device_prayers = filter (\<lambda>l. prayer_request_id l \<notin> pr_id ` set gone)
                                (device_prayers s)\<rparr>,
            reply 200 (CleanupBody (length gone))))"

text \<open>\<^verbatim>\<open>POST /api/reset-active-prayers\<close>\<close>

definition reset_active_prayers :: "store \<Rightarrow> nat option \<Rightarrow> store \<times> response" where
  "reset_active_prayers s fl =
     (if fl = Some 0 then (s, on_failure POST_reset_active_prayers)
      else
        (s\<lparr>prayer_requests :=
              update_where (\<lambda>r. True) (\<lambda>r. r\<lparr>active_prayers := 0\<rparr>) (prayer_requests s)\<rparr>,
         reply 200 (ResetBody (length (returning (\<lambda>r. True)
                      (\<lambda>r. r\<lparr>active_prayers := 0\<rparr>) (prayer_requests s))))))"

subsection \<open>Sequences of operations\<close>

datatype op =
    Join "nat option" int "string option"
  | Start "nat option" int "string option"
  | Pray "nat option" int
  | Stop "nat option" int "string option"
  | Complete "nat option" int "string option"
  | CompleteLegacy "nat option" int
  | Cleanup "nat option"
  | Reset "nat option"

text \<open>One request, served at time \<open>now\<close>.\<close>

fun step :: "store \<Rightarrow> timestamp \<times> op \<Rightarrow> store \<times> response" where
  "step s (now, Join fl rid dev) = join_prayer s now fl rid dev"
| "step s (now, Start fl rid dev) = start_praying s now fl rid dev"
| "step s (now, Pray fl rid) = pray s now fl rid"
| "step s (now, Stop fl rid dev) = stop_praying s now fl rid dev"
| "step s (now, Complete fl rid dev) = complete_prayer s now fl rid dev"
| "step s (now, CompleteLegacy fl rid) = complete_legacy s now fl rid"
| "step s (now, Cleanup fl) = cleanup_expired s now fl"
| "step s (now, Reset fl) = reset_active_prayers s fl"

fun run :: "store \<Rightarrow> (timestamp \<times> op) list \<Rightarrow> store" where
  "run s [] = s"
| "run s (ev # evs) = run (fst (step s ev)) evs"

text \<open>The responses of a sequence of requests, in order.\<close>

fun replies :: "store \<Rightarrow> (timestamp \<times> op) list \<Rightarrow> response list" where
  "replies s [] = []"
| "replies s (ev # evs) = snd (step s ev) # replies (fst (step s ev)) evs"

subsection \<open>Statistics\<close>

text \<open>
  \<^verbatim>\<open>FROM prayer_requests pr LEFT JOIN device_prayers dp ON pr.id = dp.prayer_request_id\<close>:
  a request without a link gives one row whose \<^verbatim>\<open>dp\<close> columns are null, a request
  with \<open>k\<close> links gives \<open>k\<close> rows.
\<close>

definition join_rows ::
  "device_prayer list \<Rightarrow> prayer_request \<Rightarrow> (prayer_request \<times> device_prayer option) list"
  where
  "join_rows dps pr =
     (case filter (\<lambda>dp. pr_id pr = prayer_request_id dp) dps of
        [] \<Rightarrow> [(pr, None)]
      | m # ms \<Rightarrow> map (\<lambda>dp. (pr, Some dp)) (m # ms))"

definition left_join_links ::
  "prayer_request list \<Rightarrow> device_prayer list \<Rightarrow> (prayer_request \<times> device_prayer option) list"
  where
  "left_join_links prs dps = concat (map (join_rows dps) prs)"

text \<open>\<^verbatim>\<open>CASE WHEN dp.completed_at IS NOT NULL THEN 1 END\<close> is not null.\<close>

fun link_completed :: "device_prayer option \<Rightarrow> bool" where
  "link_completed None = False"
| "link_completed (Some dp) = (completed_at dp \<noteq> None)"

text \<open>
  The aggregate query of \<^verbatim>\<open>GET /api/stats\<close>. \<^verbatim>\<open>COALESCE(SUM(...), 0)\<close> over no rows
  is \<open>0\<close>, as \<open>sum_list []\<close> is. The driver hands the three \<^verbatim>\<open>bigint\<close> aggregates over
  in decimal notation; the model keeps the numbers.
\<close>

definition stats_query :: "store \<Rightarrow> timestamp \<Rightarrow> int \<times> int \<times> int" where
  "stats_query s now =
     (let rows = filter (\<lambda>(pr, dp). is_active now pr)
                   (left_join_links (prayer_requests s) (device_prayers s))
      in (sum_list (map (\<lambda>(pr, dp). prayer_count pr) rows),
          sum_list (map (\<lambda>(pr, dp). active_prayers pr) rows),
          int (length (filter (\<lambda>(pr, dp). link_completed dp) rows))))"

definition get_stats :: "store \<Rightarrow> timestamp \<Rightarrow> nat option \<Rightarrow> response" where
  "get_stats s now fl =
     (if fl = Some 0 then on_failure GET_stats
      else case stats_query s now of (t, a, c) \<Rightarrow> reply 200 (StatsBody t a c))"

text \<open>
  The report as section 4.7 of the specification words it: over the non-expired requests,
  the sum of \<open>prayer_count\<close>, the sum of \<open>active_prayers\<close>, and the number of links with
  a \<open>completed_at\<close>.
\<close>

definition stats_spec :: "store \<Rightarrow> timestamp \<Rightarrow> int \<times> int \<times> int" where
  "stats_spec s now =
     (let active = filter (is_active now) (prayer_requests s)
      in (sum_list (map prayer_count active),
          sum_list (map active_prayers active),
          int (length (filter (\<lambda>l. completed_at l \<noteq> None \<and>
                 prayer_request_id l \<in> pr_id ` set active) (device_prayers s)))))"

subsection \<open>The topic catalog\<close>

text \<open>A row of the query of \<^verbatim>\<open>GET /api/prayer-topics\<close>.\<close>

record topic_row =
  r_id :: int
  r_title :: string
  r_category :: string
  r_parent_id :: "int option"
  main_category :: "string option"

text \<open>
  \<^verbatim>\<open>CASE WHEN pt.parent_id IS NULL THEN pt.title ELSE p.title END\<close>, where \<open>p\<close> is the
  joined parent row, or null columns when no topic has the identifier \<^verbatim>\<open>pt.parent_id\<close>.
\<close>

definition make_row :: "prayer_topic \<Rightarrow> prayer_topic option \<Rightarrow> topic_row" where
  "make_row pt p =
     \<lparr>r_id = t_id pt, r_title = title pt, r_category = category pt,
      r_parent_id = parent_id pt,
      main_category = (case parent_id pt of None \<Rightarrow> Some (title pt)
                       | Some _ \<Rightarrow> map_option title p)\<rparr>"

text \<open>\<^verbatim>\<open>FROM prayer_topics pt LEFT JOIN prayer_topics p ON pt.parent_id = p.id\<close>, for one \<open>pt\<close>.\<close>

definition topic_rows :: "prayer_topic list \<Rightarrow> prayer_topic \<Rightarrow> topic_row list" where
  "topic_rows ts pt =
     (case filter (\<lambda>p. parent_id pt = Some (t_id p)) ts of
        [] \<Rightarrow> [make_row pt None]
      | p # ps \<Rightarrow> map (\<lambda>p. make_row pt (Some p)) (p # ps))"

text \<open>
  \<^verbatim>\<open>ORDER BY CASE WHEN pt.parent_id IS NULL THEN pt.id ELSE pt.parent_id END,
  pt.parent_id IS NULL DESC, pt.id\<close>: the three keys in lexicographic order; \<^verbatim>\<open>DESC\<close> on
  a boolean puts true first.
\<close>

definition order_key :: "topic_row \<Rightarrow> int \<times> nat \<times> int" where
  "order_key r =
     ((case r_parent_id r of None \<Rightarrow> r_id r | Some p \<Rightarrow> p),
      (if r_parent_id r = None then 0 else 1),
      r_id r)"

definition topics_query :: "prayer_topic list \<Rightarrow> topic_row list" where
  "topics_query ts = sort_key order_key (concat (map (topic_rows ts) ts))"

text \<open>
  The object \<^verbatim>\<open>categorized\<close>: its own properties in the order of their creation. A
  property that it does not own is looked up in \<^verbatim>\<open>Object.prototype\<close>, whose properties
  are all truthy and have no \<^verbatim>\<open>subcategories\<close>.
\<close>

type_synonym categorized = "(string \<times> topic_group) list"

definition object_prototype_keys :: "string list" where
  "object_prototype_keys =
     [''constructor'', ''__defineGetter__'', ''__defineSetter__'', ''hasOwnProperty'',
      ''__lookupGetter__'', ''__lookupSetter__'', ''isPrototypeOf'', ''propertyIsEnumerable'',
      ''toString'', ''valueOf'', ''__proto__'', ''toLocaleString'']"

text \<open>The property key of \<^verbatim>\<open>categorized[mainCat]\<close>: null is the key \<^verbatim>\<open>"null"\<close>.\<close>

fun property_key :: "string option \<Rightarrow> string" where
  "property_key None = ''null''"
| "property_key (Some t) = t"

text \<open>\<^verbatim>\<open>topic.parent_id\<close> is truthy: neither null nor 0.\<close>

fun truthy :: "int option \<Rightarrow> bool" where
  "truthy None = False"
| "truthy (Some n) = (n \<noteq> 0)"

text \<open>\<^verbatim>\<open>topic.parent_id || topic.id\<close>\<close>

fun parent_or_own :: "int option \<Rightarrow> int \<Rightarrow> int" where
  "parent_or_own None i = i"
| "parent_or_own (Some n) i = (if n \<noteq> 0 then n else i)"

definition set_property :: "string \<Rightarrow> topic_group \<Rightarrow> categorized \<Rightarrow> categorized" where
  "set_property k g cat = map (\<lambda>(k', g'). if k' = k then (k', g) else (k', g')) cat"

datatype js_error = TypeError

text \<open>The body of the \<^verbatim>\<open>forEach\<close>, for one row.\<close>

definition add_topic :: "categorized \<Rightarrow> topic_row \<Rightarrow> js_error + categorized" where
  "add_topic cat topic =
     (let mainCat = main_category topic;
          k = property_key mainCat;
          cat1 = (if map_of cat k = None \<and> k \<notin> set object_prototype_keys
                  then cat @ [(k, \<lparr>g_id = parent_or_own (r_parent_id topic) (r_id topic),
                                   g_title = mainCat, subcategories = []\<rparr>)]
                  else cat)
      in if truthy (r_parent_id topic)
         then (case map_of cat1 k of
                 None \<Rightarrow> Inl TypeError
               | Some g \<Rightarrow> Inr (set_property k
                   (g\<lparr>subcategories := subcategories g @
                      [\<lparr>sub_id = r_id topic, sub_title = r_title topic\<rparr>]\<rparr>) cat1))
         else Inr cat1)"

fun group_topics :: "categorized \<Rightarrow> topic_row list \<Rightarrow> js_error + categorized" where
  "group_topics cat [] = Inr cat"
| "group_topics cat (topic # rows) =
     (case add_topic cat topic of
        Inl e \<Rightarrow> Inl e
      | Inr cat' \<Rightarrow> group_topics cat' rows)"

text \<open>
  \<^verbatim>\<open>Object.values\<close> lists the properties whose key is an array index (the canonical
  decimal numeral of an integer below \<open>2^32 - 1\<close>) first, in ascending numeric order, and
  then the other properties in the order of their creation.
\<close>

definition is_digit :: "char \<Rightarrow> bool" where
  "is_digit c = (c \<in> set ''0123456789'')"

definition decimal :: "string \<Rightarrow> int" where
  "decimal k = foldl (\<lambda>n c. 10 * n + (of_char c - 48)) 0 k"

definition is_array_index :: "string \<Rightarrow> bool" where
  "is_array_index k =
     (k \<noteq> [] \<and> list_all is_digit k \<and> (k = ''0'' \<or> hd k \<noteq> CHR ''0'') \<and>
      decimal k < 4294967295)"

definition object_values :: "categorized \<Rightarrow> topic_group list" where
  "object_values cat =
     map snd (sort_key (\<lambda>(k, g). decimal k) (filter (\<lambda>(k, g). is_array_index k) cat) @
              filter (\<lambda>(k, g). \<not> is_array_index k) cat)"

text \<open>\<^verbatim>\<open>GET /api/prayer-topics\<close>\<close>

definition get_prayer_topics :: "prayer_topic list \<Rightarrow> nat option \<Rightarrow> response" where
  "get_prayer_topics ts fl =
     (if fl = Some 0 then on_failure GET_prayer_topics
      else case group_topics [] (topics_query ts) of
             Inl e \<Rightarrow> on_failure GET_prayer_topics
           | Inr cat \<Rightarrow> reply 200 (TopicsBody (object_values cat)))"

text \<open>
  The catalog as section 4.5 of the specification words it: one group per main category,
  in the order of the identifiers, with its subcategories (here in the order of their
  identifiers).
\<close>

definition main_topics :: "prayer_topic list \<Rightarrow> prayer_topic list" where
  "main_topics ts = sort_key t_id (filter (\<lambda>m. parent_id m = None) ts)"

definition children :: "prayer_topic list \<Rightarrow> prayer_topic \<Rightarrow> prayer_topic list" where
  "children ts m = sort_key t_id (filter (\<lambda>c. parent_id c = Some (t_id m)) ts)"

definition group_of :: "prayer_topic list \<Rightarrow> prayer_topic \<Rightarrow> topic_group" where
  "group_of ts m =
     \<lparr>g_id = t_id m, g_title = Some (title m),
      subcategories = map (\<lambda>c. \<lparr>sub_id = t_id c, sub_title = title c\<rparr>) (children ts m)\<rparr>"

definition catalog_spec :: "prayer_topic list \<Rightarrow> topic_group list" where
  "catalog_spec ts = map (group_of ts) (main_topics ts)"

text \<open>The rows of a main category and of its subcategories, as the query orders them.\<close>

definition family_rows :: "prayer_topic list \<Rightarrow> prayer_topic \<Rightarrow> topic_row list" where
  "family_rows ts m = make_row m None # map (\<lambda>c. make_row c (Some m)) (children ts m)"

text \<open>
  A catalog that the grouping handles as the specification says: identifiers are a key,
  a parent is a main category with an identifier other than 0, and the titles of the
  main categories are pairwise different, are no array indices and no property names
  of \<^verbatim>\<open>Object.prototype\<close>.
\<close>

definition catalog_ok :: "prayer_topic list \<Rightarrow> bool" where
  "catalog_ok ts =
     (distinct (map t_id ts) \<and>
      list_all (\<lambda>c. case parent_id c of
                       None \<Rightarrow> \<not> is_array_index (title c) \<and>
                                title c \<notin> set object_prototype_keys
                     | Some p \<Rightarrow> p \<noteq> 0 \<and>
                                list_ex (\<lambda>m. t_id m = p \<and> parent_id m = None) ts) ts \<and>
      distinct (map title (filter (\<lambda>m. parent_id m = None) ts)))"

subsection \<open>Predicates of the properties\<close>

text \<open>The central equality: every request counts its links.\<close>

definition link_count :: "store \<Rightarrow> int \<Rightarrow> int" where
  "link_count s rid = int (length (filter (\<lambda>l. prayer_request_id l = rid) (device_prayers s)))"

definition count_matches_links :: "store \<Rightarrow> bool" where
  "count_matches_links s =
     list_all (\<lambda>r. prayer_count r = link_count s (pr_id r)) (prayer_requests s)"

definition active_nonneg :: "store \<Rightarrow> bool" where
  "active_nonneg s = list_all (\<lambda>r. 0 \<le> active_prayers r) (prayer_requests s)"

definition request_live :: "store \<Rightarrow> timestamp \<Rightarrow> int \<Rightarrow> bool" where
  "request_live s now rid = list_ex (\<lambda>r. pr_id r = rid \<and> is_active now r) (prayer_requests s)"

definition has_link :: "store \<Rightarrow> string \<Rightarrow> int \<Rightarrow> bool" where
  "has_link s d rid =
     list_ex (\<lambda>l. dp_device_id l = d \<and> prayer_request_id l = rid) (device_prayers s)"

definition has_open_link :: "store \<Rightarrow> string \<Rightarrow> int \<Rightarrow> bool" where
  "has_open_link s d rid =
     list_ex (\<lambda>l. dp_device_id l = d \<and> prayer_request_id l = rid \<and> completed_at l = None)
       (device_prayers s)"

text \<open>The operations that move the gauge \<open>active_prayers\<close> up and down.\<close>

fun gauge_op :: "op \<Rightarrow> bool" where
  "gauge_op (Start fl rid dev) = True"
| "gauge_op (Stop fl rid dev) = True"
| "gauge_op (Complete fl rid dev) = True"
| "gauge_op _ = False"

text \<open>
  Join, start, stop and complete, where the \<^verbatim>\<open>UPDATE\<close> of a join is not rejected after
  its \<^verbatim>\<open>INSERT\<close> went through (the two statements are not in one transaction).
\<close>

fun counted_op :: "op \<Rightarrow> bool" where
  "counted_op (Join fl rid dev) = (fl \<noteq> Some 3)"
| "counted_op (Start fl rid dev) = True"
| "counted_op (Stop fl rid dev) = True"
| "counted_op (Complete fl rid dev) = True"
| "counted_op _ = False"

text \<open>Both counters of a request raised by \<open>n\<close>.\<close>

definition add_prayers :: "int \<Rightarrow> prayer_request \<Rightarrow> prayer_request" where
  "add_prayers n r =
     r\<lparr>prayer_count := prayer_count r + n, active_prayers := active_prayers r + n\<rparr>"

text \<open>
  The pair \<open>(d, rid)\<close> is settled: no link of the pair is open, and either a link of the
  pair exists or no request has the identifier \<open>rid\<close>. Request identifiers are the
  primary key.
\<close>

definition pair_settled :: "store \<Rightarrow> string \<Rightarrow> int \<Rightarrow> bool" where
  "pair_settled s d rid =
     (distinct (map pr_id (prayer_requests s)) \<and> \<not> has_open_link s d rid \<and>
      (has_link s d rid \<or> rid \<notin> pr_id ` set (prayer_requests s)))"

subsection \<open>Example stores\<close>

definition fresh_request :: prayer_request where
  "fresh_request =
     \<lparr>pr_id = 1, topic_id = 16, device_id = Some ''creator'', description = None,
      prayer_count = 0, active_prayers = 0, created_at = 0, expires_at = 86400\<rparr>"

definition fresh_store :: store where
  "fresh_store = \<lparr>prayer_requests = [fresh_request], device_prayers = []\<rparr>"

definition link_A :: device_prayer where
  "link_A = \<lparr>dp_device_id = ''A'', prayer_request_id = 1, joined_at = 10, completed_at = None\<rparr>"

definition link_B :: device_prayer where
  "link_B = \<lparr>dp_device_id = ''B'', prayer_request_id = 1, joined_at = 20, completed_at = None\<rparr>"

text \<open>Device A has joined and holds the button.\<close>

definition joined_store :: store where
  "joined_store =
     \<lparr>prayer_requests = [fresh_request\<lparr>prayer_count := 1, active_prayers := 1\<rparr>],
      device_prayers = [link_A]\<rparr>"

text \<open>Devices A and B have joined; one of them holds the button.\<close>

definition two_links_store :: store where
  "two_links_store =
     \<lparr>prayer_requests = [fresh_request\<lparr>prayer_count := 2, active_prayers := 1\<rparr>],
      device_prayers = [link_A, link_B]\<rparr>"

text \<open>Device A has just joined the fresh request, at time 10.\<close>

definition joined_idle_store :: store where
  "joined_idle_store =
     \<lparr>prayer_requests = [fresh_request\<lparr>prayer_count := 1\<rparr>], device_prayers = [link_A]\<rparr>"

text \<open>Device A has completed, at time 90000, after the request expired.\<close>

definition completed_store :: store where
  "completed_store =
     \<lparr>prayer_requests = [fresh_request\<lparr>prayer_count := 1, active_prayers := 0\<rparr>],
      device_prayers = [link_A\<lparr>completed_at := Some 90000\<rparr>]\<rparr>"

text \<open>The catalog of the scenario, and one with two main categories of the same title.\<close>

definition job_topics :: "prayer_topic list" where
  "job_topics =
     [\<lparr>t_id = 1, title = ''Job'', category = ''main'', parent_id = None\<rparr>,
      \<lparr>t_id = 16, title = ''I just lost my job'', category = ''job'', parent_id = Some 1\<rparr>]"

definition twin_topics :: "prayer_topic list" where
  "twin_topics =
     [\<lparr>t_id = 1, title = ''Job'', category = ''main'', parent_id = None\<rparr>,
      \<lparr>t_id = 2, title = ''Job'', category = ''main'', parent_id = None\<rparr>]"

section \<open>Properties\<close>

subsection \<open>Facts about the SQL statements\<close>

lemma update_where_no_hit: "filter P rows = [] \<Longrightarrow> update_where P f rows = rows"
  by (induction rows) (auto simp: update_where_def split: if_splits)

lemma returning_Nil_iff: "returning P f rows = [] \<longleftrightarrow> filter P rows = []"
  by (simp add: returning_def)

lemma update_where_cong_set:
  "(\<And>r. r \<in> set rows \<Longrightarrow> P r = Q r) \<Longrightarrow> update_where P f rows = update_where Q f rows"
  by (simp add: update_where_def)

lemma filter_update_where_same:
  "(\<And>r. P (f r) = P r) \<Longrightarrow> filter P (update_where P f rows) = map f (filter P rows)"
  by (induction rows) (auto simp: update_where_def)

lemma update_where_twice:
  "(\<And>r. P (f r) = P r) \<Longrightarrow>
   update_where P g (update_where P f rows) = update_where P (\<lambda>r. g (f r)) rows"
  by (induction rows) (auto simp: update_where_def)

lemma map_update_where_inv:
  "(\<And>r. g (f r) = g r) \<Longrightarrow> map g (update_where P f rows) = map g rows"
  by (simp add: update_where_def)

lemma update_where_all:
  "(\<And>r. Q r \<Longrightarrow> Q (f r)) \<Longrightarrow> list_all Q rows \<Longrightarrow> list_all Q (update_where P f rows)"
  by (induction rows) (auto simp: update_where_def)

subsection \<open>Start and stop look at the device identifier only for its presence\<close>

text \<open>
  C10. The outcome of start-praying and of stop-praying is the same for any two device
  identifiers that are present: the same response and the same store. A missing (or
  empty) identifier is answered with the validation error 400 and changes nothing.
\<close>

theorem praying_ignores_device_id:
  "(present d1 \<and> present d2 \<longrightarrow>
      start_praying s now fl rid d1 = start_praying s now fl rid d2 \<and>
      stop_praying s now fl rid d1 = stop_praying s now fl rid d2) \<and>
   (\<not> present d \<longrightarrow>
      start_praying s now fl rid d = (s, device_id_required) \<and>
      stop_praying s now fl rid d = (s, device_id_required))"
  by (simp add: start_praying_def stop_praying_def)

theorem praying_ignores_device_id_witness:
  "present (Some ''A'') \<and> present (Some ''B'') \<and>
   start_praying fresh_store 10 None 1 (Some ''A'') =
     start_praying fresh_store 10 None 1 (Some ''B'') \<and>
   stop_praying joined_store 10 None 1 (Some ''A'') =
     stop_praying joined_store 10 None 1 (Some ''B'') \<and>
   \<not> present None \<and>
   start_praying fresh_store 10 None 1 None = (fresh_store, device_id_required) \<and>
   stop_praying fresh_store 10 None 1 None = (fresh_store, device_id_required)"
  using praying_ignores_device_id [of "Some ''A''" "Some ''B''" fresh_store 10 None 1 None]
    praying_ignores_device_id [of "Some ''A''" "Some ''B''" joined_store 10 None 1 None]
  by simp

subsection \<open>The gauge stays non-negative\<close>

lemma step_active_nonneg: "active_nonneg s \<Longrightarrow> active_nonneg (fst (step s ev))"
proof (cases ev)
  case (Pair now op)
  assume "active_nonneg s"
  then show ?thesis unfolding Pair
    by (cases op)
       (auto simp: active_nonneg_def join_prayer_def start_praying_def pray_def stop_praying_def
          complete_prayer_def complete_legacy_def cleanup_expired_def reset_active_prayers_def
          Let_def list_all_iff update_where_def
          split: option.splits if_splits)
qed

lemma run_active_nonneg: "active_nonneg s \<Longrightarrow> active_nonneg (run s evs)"
  by (induction evs arbitrary: s) (auto simp: step_active_nonneg)

lemma stop_praying_gauge:
  "present dev \<Longrightarrow> fl \<noteq> Some 0 \<Longrightarrow>
   map active_prayers (prayer_requests (fst (stop_praying s now fl rid dev))) =
   map (\<lambda>r. if pr_id r = rid \<and> is_active now r then max (active_prayers r - 1) 0
             else active_prayers r) (prayer_requests s)"
  by (simp add: stop_praying_def Let_def update_where_def)

lemma complete_prayer_gauge:
  "d \<noteq> [] \<Longrightarrow> has_open_link s d rid \<Longrightarrow>
   map active_prayers (prayer_requests (fst (complete_prayer s now None rid (Some d)))) =
   map (\<lambda>r. if pr_id r = rid then max (active_prayers r - 1) 0 else active_prayers r)
     (prayer_requests s)"
  by (auto simp: complete_prayer_def Let_def update_where_def returning_def has_open_link_def
        list_ex_iff filter_empty_conv)

text \<open>
  C7. If no request has a negative \<open>active_prayers\<close>, then after any sequence of
  start-praying, stop-praying and complete requests none has. A stop-praying that reaches
  its statement sets \<open>active_prayers\<close> of the live request to \<open>max (active_prayers - 1) 0\<close>,
  and so does a complete that finds an uncompleted link, for the request it names.
\<close>

theorem active_prayers_never_negative:
  "(active_nonneg s \<and> (\<forall>ev\<in>set evs. gauge_op (snd ev)) \<longrightarrow> active_nonneg (run s evs)) \<and>
   (present dev \<and> fl \<noteq> Some 0 \<longrightarrow>
      map active_prayers (prayer_requests (fst (stop_praying s now fl rid dev))) =
      map (\<lambda>r. if pr_id r = rid \<and> is_active now r then max (active_prayers r - 1) 0
                else active_prayers r) (prayer_requests s)) \<and>
   (d \<noteq> [] \<and> has_open_link s d rid \<longrightarrow>
      map active_prayers (prayer_requests (fst (complete_prayer s now None rid (Some d)))) =
      map (\<lambda>r. if pr_id r = rid then max (active_prayers r - 1) 0 else active_prayers r)
        (prayer_requests s))"
  using run_active_nonneg stop_praying_gauge complete_prayer_gauge by blast

theorem active_prayers_never_negative_witness:
  "active_nonneg joined_store \<and>
   list_all (\<lambda>ev. gauge_op (snd ev))
     [(10, Stop None 1 (Some ''A'')), (11, Stop None 1 (Some ''A'')),
      (12, Start None 1 (Some ''B'')), (13, Complete None 1 (Some ''A'')),
      (14, Complete None 1 (Some ''A''))] \<and>
   active_nonneg (run joined_store
     [(10, Stop None 1 (Some ''A'')), (11, Stop None 1 (Some ''A'')),
      (12, Start None 1 (Some ''B'')), (13, Complete None 1 (Some ''A'')),
      (14, Complete None 1 (Some ''A''))]) \<and>
   present (Some ''A'') \<and>
   map active_prayers (prayer_requests (fst (stop_praying fresh_store 10 None 1 (Some ''A''))))
     = [0] \<and>
   has_open_link joined_store ''A'' 1 \<and>
   map active_prayers (prayer_requests (fst (complete_prayer joined_store 10 None 1 (Some ''A''))))
     = [0]"
  using active_prayers_never_negative [where s = joined_store and dev = "Some ''A''"
      and fl = None and now = 10 and rid = 1 and d = "''A''" and evs =
      "[(10, Stop None 1 (Some ''A'')), (11, Stop None 1 (Some ''A'')),
        (12, Start None 1 (Some ''B'')), (13, Complete None 1 (Some ''A'')),
        (14, Complete None 1 (Some ''A''))]"]
    active_prayers_never_negative [where s = fresh_store and dev = "Some ''A''"
      and fl = None and now = 10 and rid = 1 and d = "''A''" and evs = "[]"]
  by (simp add: active_nonneg_def joined_store_def fresh_store_def fresh_request_def
        has_open_link_def link_A_def is_active_def)

subsection \<open>The legacy pray\<close>

lemma add_prayers_add: "add_prayers m (add_prayers n r) = add_prayers (n + m) r"
  by (simp add: add_prayers_def)

lemma pr_id_add_prayers: "pr_id (add_prayers n r) = pr_id r"
  by (simp add: add_prayers_def)

lemma pray_once:
  assumes ex: "\<exists>r\<in>set (prayer_requests s). pr_id r = rid"
      and live: "\<forall>r\<in>set (prayer_requests s). pr_id r = rid \<longrightarrow> is_active t r"
  shows "pray s t None rid =
           (s\<lparr>prayer_requests :=
                update_where (\<lambda>r. pr_id r = rid) (add_prayers 1) (prayer_requests s)\<rparr>,
            reply 200 (RequestBody (first_row
              (returning (\<lambda>r. pr_id r = rid) (add_prayers 1) (prayer_requests s)))))"
proof -
  let ?hit = "\<lambda>r. pr_id r = rid \<and> is_active t r"
  let ?bump = "\<lambda>r. r\<lparr>prayer_count := prayer_count r + 1,
                       active_prayers := active_prayers r + 1\<rparr>"
  have bump: "?bump = add_prayers 1" by (simp add: add_prayers_def fun_eq_iff)
  have f: "filter ?hit (prayer_requests s) = filter (\<lambda>r. pr_id r = rid) (prayer_requests s)"
    using live by (intro filter_cong) auto
  have u: "update_where ?hit ?bump (prayer_requests s) =
           update_where (\<lambda>r. pr_id r = rid) ?bump (prayer_requests s)"
    using live by (intro update_where_cong_set) auto
  have ne: "filter (\<lambda>r. pr_id r = rid) (prayer_requests s) \<noteq> []"
    using ex by (simp add: filter_empty_conv)
  show ?thesis
    unfolding pray_def Let_def returning_def f u using ne by (simp add: bump)
qed

lemma pray_many:
  assumes "\<exists>r\<in>set (prayer_requests s). pr_id r = rid"
      and "\<forall>r\<in>set (prayer_requests s). pr_id r = rid \<longrightarrow> (\<forall>t\<in>set ts. is_active t r)"
  shows "run s (map (\<lambda>t. (t, Pray None rid)) ts) =
           s\<lparr>prayer_requests := update_where (\<lambda>r. pr_id r = rid)
                (add_prayers (int (length ts))) (prayer_requests s)\<rparr>
         \<and> list_all (\<lambda>resp. status resp = 200) (replies s (map (\<lambda>t. (t, Pray None rid)) ts))"
  using assms
proof (induction ts arbitrary: s)
  case Nil
  have "update_where (\<lambda>r. pr_id r = rid) (add_prayers 0) (prayer_requests s) = prayer_requests s"
    by (simp add: update_where_def add_prayers_def map_idI)
  then show ?case by simp
next
  case (Cons t ts)
  let ?s1 = "s\<lparr>prayer_requests :=
               update_where (\<lambda>r. pr_id r = rid) (add_prayers 1) (prayer_requests s)\<rparr>"
  have one: "pray s t None rid =
           (?s1, reply 200 (RequestBody (first_row
              (returning (\<lambda>r. pr_id r = rid) (add_prayers 1) (prayer_requests s)))))"
    using Cons.prems by (intro pray_once) auto
  have m: "map pr_id (prayer_requests ?s1) = map pr_id (prayer_requests s)"
    by (simp add: map_update_where_inv add_prayers_def)
  have ex1: "\<exists>r\<in>set (prayer_requests ?s1). pr_id r = rid"
  proof -
    from Cons.prems(1) have "rid \<in> set (map pr_id (prayer_requests s))" by auto
    then have "rid \<in> set (map pr_id (prayer_requests ?s1))" by (simp only: m)
    then show ?thesis by auto
  qed
  have live1: "\<forall>r\<in>set (prayer_requests ?s1). pr_id r = rid \<longrightarrow> (\<forall>t\<in>set ts. is_active t r)"
  proof (intro ballI impI)
    fix r' t'
    assume r': "r' \<in> set (prayer_requests ?s1)" and id: "pr_id r' = rid" and t': "t' \<in> set ts"
    from r' obtain r where r: "r \<in> set (prayer_requests s)"
      and eq: "r' = r \<or> r' = add_prayers 1 r"
      by (auto simp: update_where_def split: if_splits)
    from eq have same: "pr_id r' = pr_id r" "expires_at r' = expires_at r"
      by (auto simp: add_prayers_def)
    from Cons.prems(2) r id same t' have "is_active t' r" by auto
    then show "is_active t' r'" using same by (simp add: is_active_def)
  qed
  have comp: "update_where (\<lambda>r. pr_id r = rid) (add_prayers (int (length ts)))
                (update_where (\<lambda>r. pr_id r = rid) (add_prayers 1) (prayer_requests s))
              = update_where (\<lambda>r. pr_id r = rid) (add_prayers (int (length (t # ts))))
                  (prayer_requests s)"
    by (subst update_where_twice) (simp_all add: add_prayers_add pr_id_add_prayers)
  show ?case
    using Cons.IH [OF ex1 live1] one comp by (simp add: reply_def)
qed

text \<open>
  C6. Let a request with the identifier \<open>rid\<close> exist and be non-expired at each of the
  times \<open>ts\<close>. Then \<open>length ts\<close> legacy pray requests served at these times, with every
  statement succeeding, are all answered 200 and leave the store as it was except that
  \<open>prayer_count\<close> and \<open>active_prayers\<close> of that request are both higher by exactly
  \<open>length ts\<close>; in particular \<open>device_prayers\<close> is unchanged: no link is created.
  The handler takes no device identifier, so there is nothing to deduplicate on: the
  calls of one caller count like those of many.
\<close>

theorem legacy_pray_counts_every_call:
  assumes "\<exists>r\<in>set (prayer_requests s). pr_id r = rid"
      and "\<forall>r\<in>set (prayer_requests s). pr_id r = rid \<longrightarrow> (\<forall>t\<in>set ts. is_active t r)"
  shows "run s (map (\<lambda>t. (t, Pray None rid)) ts) =
           s\<lparr>prayer_requests := update_where (\<lambda>r. pr_id r = rid)
                (add_prayers (int (length ts))) (prayer_requests s)\<rparr>
         \<and> device_prayers (run s (map (\<lambda>t. (t, Pray None rid)) ts)) = device_prayers s
         \<and> list_all (\<lambda>resp. status resp = 200) (replies s (map (\<lambda>t. (t, Pray None rid)) ts))"
  using pray_many [OF assms] by simp

theorem legacy_pray_counts_every_call_witness:
  "(\<exists>r\<in>set (prayer_requests fresh_store). pr_id r = 1) \<and>
   list_all (\<lambda>r. pr_id r = 1 \<and> list_all (\<lambda>t. is_active t r) [10, 11, 12])
     (prayer_requests fresh_store) \<and>
   run fresh_store [(10, Pray None 1), (11, Pray None 1), (12, Pray None 1)] =
     \<lparr>prayer_requests = [fresh_request\<lparr>prayer_count := 3, active_prayers := 3\<rparr>],
      device_prayers = []\<rparr>"
  using legacy_pray_counts_every_call [of fresh_store 1 "[10, 11, 12]"]
  by (simp add: fresh_store_def fresh_request_def is_active_def update_where_def
        add_prayers_def)

subsection \<open>Requests that are absent or expired\<close>

lemma not_live_filter:
  "\<not> request_live s now rid \<Longrightarrow> filter (\<lambda>r. pr_id r = rid \<and> is_active now r) (prayer_requests s) = []"
  by (auto simp: request_live_def list_ex_iff filter_empty_conv)

lemma no_open_filter:
  "\<not> has_open_link s d rid \<Longrightarrow>
   filter (\<lambda>l. Some (dp_device_id l) = Some d \<and> prayer_request_id l = rid \<and> completed_at l = None) (device_prayers s) = []"
  by (auto simp: has_open_link_def list_ex_iff filter_empty_conv)

lemma store_update_same [simp]: "s\<lparr>prayer_requests := prayer_requests s\<rparr> = s" "s\<lparr>device_prayers := device_prayers s\<rparr> = s"
  by simp_all

text \<open>
  C2, as the code has it. Let no non-expired request have the identifier \<open>rid\<close> (it is
  absent, or \<open>expires_at \<le> now\<close>), let the device identifier be present and the first
  statement not be rejected. Then join, start-praying, stop-praying, the legacy pray and
  the legacy \<^verbatim>\<open>DELETE\<close> complete answer 404 "Prayer request not found or expired" and
  leave both tables as they were. \<^verbatim>\<open>POST\<close> complete never looks at the request row: it
  answers 404 and changes nothing when the device has no uncompleted link to \<open>rid\<close>.
\<close>

theorem not_found_leaves_state:
  assumes "\<not> request_live s now rid" and "present dev" and "fl \<noteq> Some 0"
  shows "join_prayer s now fl rid dev = (s, not_found_or_expired) \<and>
         start_praying s now fl rid dev = (s, not_found_or_expired) \<and>
         stop_praying s now fl rid dev = (s, not_found_or_expired) \<and>
         pray s now fl rid = (s, not_found_or_expired) \<and>
         complete_legacy s now fl rid = (s, not_found_or_expired) \<and>
         (\<forall>d. dev = Some d \<and> \<not> has_open_link s d rid \<longrightarrow>
            complete_prayer s now fl rid dev = (s, not_found_for_device))"
proof -
  note nl = not_live_filter [OF assms(1)]
  have u: "\<And>f. update_where (\<lambda>r. pr_id r = rid \<and> is_active now r) f (prayer_requests s) = prayer_requests s"
    using nl by (rule update_where_no_hit)
  have j: "join_prayer s now fl rid dev = (s, not_found_or_expired)"
    using assms(2,3) nl by (cases dev) (simp_all add: join_prayer_def)
  have a: "start_praying s now fl rid dev = (s, not_found_or_expired)"
    using assms(2,3) nl by (simp add: start_praying_def Let_def returning_def u)
  have b: "stop_praying s now fl rid dev = (s, not_found_or_expired)"
    using assms(2,3) nl by (simp add: stop_praying_def Let_def returning_def u)
  have c: "pray s now fl rid = (s, not_found_or_expired)"
    using assms(3) nl by (simp add: pray_def Let_def returning_def u)
  have d: "complete_legacy s now fl rid = (s, not_found_or_expired)"
    using assms(3) nl by (simp add: complete_legacy_def Let_def returning_def u)
  have e: "complete_prayer s now fl rid (Some d) = (s, not_found_for_device)"
    if "present (Some d)" "\<not> has_open_link s d rid" for d
    using that assms(3) no_open_filter [OF that(2)]
    by (simp add: complete_prayer_def Let_def returning_def update_where_no_hit)
  show ?thesis using j a b c d e assms(2) by auto
qed


theorem not_found_leaves_state_witness:
  "\<not> request_live joined_store 90000 1 \<and> present (Some ''B'') \<and>
   join_prayer joined_store 90000 None 1 (Some ''B'') = (joined_store, not_found_or_expired) \<and>
   start_praying joined_store 90000 None 1 (Some ''B'') = (joined_store, not_found_or_expired) \<and>
   stop_praying joined_store 90000 None 1 (Some ''B'') = (joined_store, not_found_or_expired) \<and>
   pray joined_store 90000 None 1 = (joined_store, not_found_or_expired) \<and>
   complete_legacy joined_store 90000 None 1 = (joined_store, not_found_or_expired) \<and>
   \<not> has_open_link joined_store ''B'' 1 \<and>
   complete_prayer joined_store 90000 None 1 (Some ''B'') = (joined_store, not_found_for_device)"
  using not_found_leaves_state [of joined_store 90000 1 "Some ''B''" None]
  by (simp add: request_live_def joined_store_def fresh_request_def is_active_def
        has_open_link_def link_A_def)

text \<open>
  C2 as stated fails for \<^verbatim>\<open>POST\<close> complete: at time 90000 the only request has expired
  (\<open>expires_at = 86400\<close>), and still the complete of device A is answered 200, marks the
  link as completed and lowers \<open>active_prayers\<close>.
\<close>

theorem complete_on_expired_request_counterexample:
  "\<not> request_live joined_store 90000 1 \<and> present (Some ''A'') \<and>
   complete_prayer joined_store 90000 None 1 (Some ''A'') =
     (completed_store, reply 200 (MessageBody ''Prayer completed successfully'')) \<and>
   completed_store \<noteq> joined_store"
  by (simp add: request_live_def joined_store_def completed_store_def fresh_request_def
        is_active_def link_A_def complete_prayer_def Let_def update_where_def returning_def)

subsection \<open>Joining twice\<close>

lemma join_repeat:
  assumes "d \<noteq> []" and "request_live s now rid" and "has_link s d rid"
  shows "join_prayer s now None rid (Some d) =
           (s, reply 200 (RequestBody (first_row (filter (\<lambda>r. pr_id r = rid) (prayer_requests s)))))"
proof -
  have 1: "filter (\<lambda>r. pr_id r = rid \<and> is_active now r) (prayer_requests s) \<noteq> []"
    using assms(2) by (auto simp: request_live_def list_ex_iff filter_empty_conv)
  have 2: "filter (\<lambda>l. dp_device_id l = d \<and> prayer_request_id l = rid) (device_prayers s) \<noteq> []"
    using assms(3) by (auto simp: has_link_def list_ex_iff filter_empty_conv)
  show ?thesis using assms(1) 1 2 by (simp add: join_prayer_def)
qed

lemma join_ok_cases:
  assumes "join_prayer s now None rid dev = (s1, r1)" and "status r1 = 200"
  obtains d where "dev = Some d" "d \<noteq> []" "has_link s1 d rid"
      "r1 = reply 200 (RequestBody (first_row (filter (\<lambda>r. pr_id r = rid) (prayer_requests s1))))"
proof (cases dev)
  case None
  with assms show ?thesis by (auto simp: join_prayer_def device_id_required_def reply_def)
next
  case (Some d)
  show ?thesis
  proof (cases "filter (\<lambda>l. dp_device_id l = d \<and> prayer_request_id l = rid) (device_prayers s) = []")
    case True
    let ?bump = "\<lambda>r. r\<lparr>prayer_count := prayer_count r + 1\<rparr>"
    from assms Some True have d: "d \<noteq> []"
      by (auto simp: join_prayer_def device_id_required_def reply_def split: if_splits)
    from assms Some True d have live: "filter (\<lambda>r. pr_id r = rid \<and> is_active now r) (prayer_requests s) \<noteq> []"
      by (auto simp: join_prayer_def not_found_or_expired_def reply_def split: if_splits)
    from assms(1) Some True d live
    have s1: "s1 = \<lparr>prayer_requests = update_where (\<lambda>r. pr_id r = rid) ?bump (prayer_requests s),
                   device_prayers = device_prayers s @ [\<lparr>dp_device_id = d, prayer_request_id = rid, joined_at = now, completed_at = None\<rparr>]\<rparr>"
      and r1: "r1 = reply 200 (RequestBody (first_row (returning (\<lambda>r. pr_id r = rid) ?bump (prayer_requests s))))"
      by (auto simp: join_prayer_def Let_def)
    have f: "filter (\<lambda>r. pr_id r = rid) (prayer_requests s1) = returning (\<lambda>r. pr_id r = rid) ?bump (prayer_requests s)"
      unfolding s1 returning_def by (simp add: filter_update_where_same)
    have l: "has_link s1 d rid" unfolding s1 by (simp add: has_link_def)
    show ?thesis using that [OF Some d l] r1 f by simp
  next
    case False
    from assms Some have d: "d \<noteq> []"
      by (auto simp: join_prayer_def device_id_required_def reply_def split: if_splits)
    from assms Some d have live: "filter (\<lambda>r. pr_id r = rid \<and> is_active now r) (prayer_requests s) \<noteq> []"
      by (auto simp: join_prayer_def not_found_or_expired_def reply_def split: if_splits)
    from assms(1) Some False d live
    have "s1 = s" and r1: "r1 = reply 200 (RequestBody (first_row (filter (\<lambda>r. pr_id r = rid) (prayer_requests s))))"
      by (auto simp: join_prayer_def Let_def)
    moreover have "has_link s d rid" using False by (auto simp: has_link_def list_ex_iff filter_empty_conv)
    ultimately show ?thesis using that [OF Some d] by simp
  qed
qed

text \<open>
  C3. Let every statement succeed. If the device \<open>d\<close> already has a link to the
  non-expired request \<open>rid\<close>, a join changes neither table (so \<open>prayer_count\<close>,
  \<open>active_prayers\<close> and \<open>device_prayers\<close> are as before), is answered 200, and returns
  the current row of the request. After a successful join the device has a link; so a
  second join of the pair, served while the request is non-expired, changes nothing and is
  answered 200, and it returns exactly what the first join returned when it follows the
  first directly, or more generally in any later store \<open>s2\<close> in which the row of the
  request is as the first join left it.
\<close>

theorem join_idempotent:
  "(d \<noteq> [] \<and> request_live s now rid \<and> has_link s d rid \<longrightarrow>
      join_prayer s now None rid (Some d) =
        (s, reply 200 (RequestBody (first_row
              (filter (\<lambda>r. pr_id r = rid) (prayer_requests s)))))) \<and>
   (join_prayer s now None rid (Some d) = (s1, r1) \<and> status r1 = 200 \<longrightarrow>
      has_link s1 d rid \<and>
      (request_live s1 now2 rid \<longrightarrow> join_prayer s1 now2 None rid (Some d) = (s1, r1)) \<and>
      (has_link s2 d rid \<and> request_live s2 now2 rid \<and>
       filter (\<lambda>r. pr_id r = rid) (prayer_requests s2) =
       filter (\<lambda>r. pr_id r = rid) (prayer_requests s1) \<longrightarrow>
         join_prayer s2 now2 None rid (Some d) = (s2, r1)))"
proof (intro conjI impI)
  assume "d \<noteq> [] \<and> request_live s now rid \<and> has_link s d rid"
  then show "join_prayer s now None rid (Some d) =
        (s, reply 200 (RequestBody (first_row
              (filter (\<lambda>r. pr_id r = rid) (prayer_requests s)))))"
    by (simp add: join_repeat)
next
  assume a: "join_prayer s now None rid (Some d) = (s1, r1) \<and> status r1 = 200"
  then obtain d' where "Some d = Some d'" and d': "d' \<noteq> []" "has_link s1 d' rid"
      "r1 = reply 200 (RequestBody (first_row
              (filter (\<lambda>r. pr_id r = rid) (prayer_requests s1))))"
    by (elim conjE join_ok_cases)
  then have d: "d \<noteq> []" and l: "has_link s1 d rid"
    and r1: "r1 = reply 200 (RequestBody (first_row
              (filter (\<lambda>r. pr_id r = rid) (prayer_requests s1))))"
    by simp_all
  show "has_link s1 d rid" by fact
  show "join_prayer s1 now2 None rid (Some d) = (s1, r1)" if "request_live s1 now2 rid"
    using that d l r1 by (simp add: join_repeat)
  show "join_prayer s2 now2 None rid (Some d) = (s2, r1)"
    if "has_link s2 d rid \<and> request_live s2 now2 rid \<and>
        filter (\<lambda>r. pr_id r = rid) (prayer_requests s2) =
        filter (\<lambda>r. pr_id r = rid) (prayer_requests s1)"
    using that d r1 by (simp add: join_repeat)
qed

theorem join_idempotent_witness:
  "''A'' \<noteq> [] \<and> request_live joined_store 20 1 \<and> has_link joined_store ''A'' 1 \<and>
   fst (join_prayer joined_store 20 None 1 (Some ''A'')) = joined_store \<and>
   join_prayer fresh_store 10 None 1 (Some ''A'') =
     (joined_idle_store, reply 200 (RequestBody (Some (fresh_request\<lparr>prayer_count := 1\<rparr>)))) \<and>
   request_live joined_idle_store 20 1 \<and>
   join_prayer joined_idle_store 20 None 1 (Some ''A'') =
     (joined_idle_store, reply 200 (RequestBody (Some (fresh_request\<lparr>prayer_count := 1\<rparr>))))"
proof -
  have first: "join_prayer fresh_store 10 None 1 (Some ''A'') =
     (joined_idle_store, reply 200 (RequestBody (Some (fresh_request\<lparr>prayer_count := 1\<rparr>))))"
    by (simp add: join_prayer_def fresh_store_def joined_idle_store_def fresh_request_def
          link_A_def is_active_def Let_def update_where_def returning_def)
  have live: "request_live joined_idle_store 20 1" "request_live joined_store 20 1"
    by (simp_all add: request_live_def joined_idle_store_def joined_store_def
          fresh_request_def is_active_def)
  have link: "has_link joined_store ''A'' 1"
    by (simp add: has_link_def joined_store_def link_A_def)
  show ?thesis
    using join_idempotent [where s = fresh_store and now = 10 and rid = 1 and d = "''A''"
        and ?s1.0 = joined_idle_store and ?now2.0 = 20 and ?s2.0 = joined_idle_store
        and ?r1.0 = "reply 200 (RequestBody (Some (fresh_request\<lparr>prayer_count := 1\<rparr>)))"]
      join_idempotent [where s = joined_store and now = 20 and rid = 1 and d = "''A''"
        and ?s1.0 = joined_store and ?now2.0 = 20 and ?s2.0 = joined_store
        and ?r1.0 = device_id_required]
      first live link
    by (simp add: reply_def)
qed

subsection \<open>Completing\<close>

lemma has_open_link_iff:
  "has_open_link s d rid \<longleftrightarrow>
   (\<exists>l\<in>set (device_prayers s). dp_device_id l = d \<and> prayer_request_id l = rid \<and> completed_at l = None)"
  by (simp add: has_open_link_def list_ex_iff)

lemma has_link_iff:
  "has_link s d rid \<longleftrightarrow>
   (\<exists>l\<in>set (device_prayers s). dp_device_id l = d \<and> prayer_request_id l = rid)"
  by (simp add: has_link_def list_ex_iff)

lemma links_only_requests_change [simp]:
  "has_open_link (s\<lparr>prayer_requests := rows\<rparr>) d rid = has_open_link s d rid"
  "has_link (s\<lparr>prayer_requests := rows\<rparr>) d rid = has_link s d rid"
  by (simp_all add: has_open_link_def has_link_def)

lemma pair_settled_requests_upd:
  assumes "pair_settled s d rid" and "\<And>r. pr_id (f r) = pr_id r"
  shows "pair_settled (s\<lparr>prayer_requests := update_where P f (prayer_requests s)\<rparr>) d rid"
proof -
  have m: "map pr_id (update_where P f (prayer_requests s)) = map pr_id (prayer_requests s)"
    using assms(2) by (simp add: map_update_where_inv)
  have "pr_id ` set (update_where P f (prayer_requests s)) = pr_id ` set (prayer_requests s)"
    using arg_cong [OF m, of set] by simp
  with assms(1) m show ?thesis by (simp add: pair_settled_def)
qed

lemma has_link_pairs:
  "has_link s d rid \<longleftrightarrow>
   (d, rid) \<in> set (map (\<lambda>l. (dp_device_id l, prayer_request_id l)) (device_prayers s))"
  by (auto simp: has_link_iff)

lemma has_link_cong:
  "map (\<lambda>l. (dp_device_id l, prayer_request_id l)) (device_prayers s') =
   map (\<lambda>l. (dp_device_id l, prayer_request_id l)) (device_prayers s) \<Longrightarrow>
   has_link s' d rid = has_link s d rid"
  unfolding has_link_pairs by simp

lemma complete_keeps_links:
  "device_prayers s' = update_where P (\<lambda>l. l\<lparr>completed_at := c\<rparr>) (device_prayers s) \<Longrightarrow>
   has_link s' d rid = has_link s d rid"
  by (rule has_link_cong) (simp add: map_update_where_inv)

lemma complete_opens_nothing:
  assumes dp: "device_prayers s' =
      update_where P (\<lambda>l. l\<lparr>completed_at := Some now\<rparr>) (device_prayers s)"
    and op: "has_open_link s' d rid"
  shows "has_open_link s d rid"
proof -
  from op obtain l' where l': "l' \<in> set (device_prayers s')"
    and p: "dp_device_id l' = d" "prayer_request_id l' = rid" "completed_at l' = None"
    unfolding has_open_link_iff by blast
  from l' obtain l where l: "l \<in> set (device_prayers s)"
    and eq: "l' = (if P l then l\<lparr>completed_at := Some now\<rparr> else l)"
    unfolding dp update_where_def by auto
  from eq p(3) have "l' = l" by (cases "P l") simp_all
  with l p show ?thesis unfolding has_open_link_iff by blast
qed

lemma complete_closes_pair:
  assumes dp: "device_prayers s' = update_where
      (\<lambda>l. dp_device_id l = d \<and> prayer_request_id l = rid \<and> completed_at l = None)
      (\<lambda>l. l\<lparr>completed_at := Some now\<rparr>) (device_prayers s)"
  shows "\<not> has_open_link s' d rid"
proof
  assume "has_open_link s' d rid"
  then obtain l' where l': "l' \<in> set (device_prayers s')"
    and p: "dp_device_id l' = d" "prayer_request_id l' = rid" "completed_at l' = None"
    unfolding has_open_link_iff by blast
  from l' obtain l where l: "l \<in> set (device_prayers s)"
    and eq: "l' = (if dp_device_id l = d \<and> prayer_request_id l = rid \<and> completed_at l = None
                   then l\<lparr>completed_at := Some now\<rparr> else l)"
    unfolding dp update_where_def by auto
  show False
  proof (cases "dp_device_id l = d \<and> prayer_request_id l = rid \<and> completed_at l = None")
    case True
    with eq p(3) show False by simp
  next
    case False
    with eq have "l' = l" by simp
    with p False show False by simp
  qed
qed

lemma step_pair_settled:
  assumes "pair_settled s d rid"
  shows "pair_settled (fst (step s (now, op))) d rid"
proof (cases op)
  case (Join fl rid' dev)
  show ?thesis
  proof (cases "fst (join_prayer s now fl rid' dev) = s")
    case True
    with assms show ?thesis by (simp add: Join)
  next
    case False
    then obtain d' where dev: "dev = Some d'" and d': "d' \<noteq> []"
      and live: "filter (\<lambda>r. pr_id r = rid' \<and> is_active now r) (prayer_requests s) \<noteq> []"
      and new: "filter (\<lambda>l. dp_device_id l = d' \<and> prayer_request_id l = rid') (device_prayers s) = []"
      by (cases dev) (auto simp: join_prayer_def split: if_splits)
    let ?l = "\<lparr>dp_device_id = d', prayer_request_id = rid', joined_at = now, completed_at = None\<rparr>"
    let ?s1 = "s\<lparr>device_prayers := device_prayers s @ [?l]\<rparr>"
    from live have "rid' \<in> pr_id ` set (prayer_requests s)"
      by (auto simp: filter_empty_conv)
    moreover from new have "\<not> has_link s d' rid'"
      by (auto simp: has_link_iff filter_empty_conv)
    ultimately have other: "\<not> (d' = d \<and> rid' = rid)"
      using assms by (auto simp: pair_settled_def)
    have s1: "pair_settled ?s1 d rid"
      using assms other by (auto simp: pair_settled_def has_open_link_iff has_link_iff)
    have "fst (join_prayer s now fl rid' dev) = ?s1 \<or>
          fst (join_prayer s now fl rid' dev) =
            ?s1\<lparr>prayer_requests := update_where (\<lambda>r. pr_id r = rid')
                   (\<lambda>r. r\<lparr>prayer_count := prayer_count r + 1\<rparr>) (prayer_requests ?s1)\<rparr>"
      using False dev d' live new by (auto simp: join_prayer_def Let_def split: if_splits)
    then show ?thesis
      using s1 pair_settled_requests_upd [OF s1, of "\<lambda>r. r\<lparr>prayer_count := prayer_count r + 1\<rparr>" "\<lambda>r. pr_id r = rid'"]
      by (auto simp: Join)
  qed
next
  case (Start fl rid' dev)
  show ?thesis using assms pair_settled_requests_upd [OF assms]
    by (simp add: Start start_praying_def Let_def)
next
  case (Pray fl rid')
  show ?thesis using assms pair_settled_requests_upd [OF assms]
    by (simp add: Pray pray_def Let_def)
next
  case (Stop fl rid' dev)
  show ?thesis using assms pair_settled_requests_upd [OF assms]
    by (simp add: Stop stop_praying_def Let_def)
next
  case (Complete fl rid' dev)
  show ?thesis
  proof (cases dev)
    case None
    with assms show ?thesis by (simp add: Complete complete_prayer_def)
  next
    case (Some d')
    let ?s1 = "s\<lparr>device_prayers := update_where
       (\<lambda>l. Some (dp_device_id l) = Some d' \<and> prayer_request_id l = rid' \<and> completed_at l = None)
       (\<lambda>l. l\<lparr>completed_at := Some now\<rparr>) (device_prayers s)\<rparr>"
    have dp1: "device_prayers ?s1 = update_where
       (\<lambda>l. Some (dp_device_id l) = Some d' \<and> prayer_request_id l = rid' \<and> completed_at l = None)
       (\<lambda>l. l\<lparr>completed_at := Some now\<rparr>) (device_prayers s)" by simp
    have s1: "pair_settled ?s1 d rid"
      using assms complete_opens_nothing [OF dp1, of d rid] complete_keeps_links [OF dp1, of d rid]
      by (auto simp: pair_settled_def)
    show ?thesis
      using assms s1 pair_settled_requests_upd [OF s1]
      by (simp add: Complete Some complete_prayer_def Let_def)
  qed
next
  case (CompleteLegacy fl rid')
  show ?thesis using assms pair_settled_requests_upd [OF assms]
    by (simp add: CompleteLegacy complete_legacy_def Let_def)
next
  case (Cleanup fl)
  show ?thesis
  proof (cases "fl = Some 0")
    case True
    with assms show ?thesis by (simp add: Cleanup cleanup_expired_def)
  next
    case False
    let ?keep = "filter (\<lambda>r. \<not> expires_at r \<le> now) (prayer_requests s)"
    let ?gone = "filter (\<lambda>r. expires_at r \<le> now) (prayer_requests s)"
    let ?s1 = "\<lparr>prayer_requests = ?keep,
                device_prayers = filter (\<lambda>l. prayer_request_id l \<notin> pr_id ` set ?gone) (device_prayers s)\<rparr>"
    have dist: "distinct (map pr_id (prayer_requests s))"
      using assms by (simp add: pair_settled_def)
    have d1: "distinct (map pr_id ?keep)"
      using dist by (simp add: distinct_map_filter)
    have o1: "\<not> has_open_link ?s1 d rid"
      using assms by (auto simp: pair_settled_def has_open_link_iff)
    have disj: "pr_id ` set ?gone \<inter> pr_id ` set ?keep = {}"
    proof -
      have "inj_on pr_id (set (prayer_requests s))" using dist by (simp add: distinct_map)
      then show ?thesis by (auto simp: inj_on_def)
    qed
    have l1: "has_link ?s1 d rid \<or> rid \<notin> pr_id ` set ?keep"
    proof (cases "rid \<in> pr_id ` set ?keep")
      case True
      then have "rid \<in> pr_id ` set (prayer_requests s)" by auto
      with assms have "has_link s d rid" by (simp add: pair_settled_def)
      moreover from True disj have "rid \<notin> pr_id ` set ?gone" by blast
      ultimately show ?thesis by (auto simp: has_link_iff)
    qed simp
    show ?thesis using False d1 o1 l1 by (simp add: Cleanup cleanup_expired_def Let_def pair_settled_def)
  qed
next
  case (Reset fl)
  show ?thesis using assms pair_settled_requests_upd [OF assms]
    by (simp add: Reset reset_active_prayers_def)
qed

lemma run_pair_settled: "pair_settled s d rid \<Longrightarrow> pair_settled (run s evs) d rid"
proof (induction evs arbitrary: s)
  case (Cons ev evs)
  then show ?case using step_pair_settled [of s d rid "fst ev" "snd ev"] by simp
qed simp



lemma complete_result:
  assumes "d \<noteq> []" and "has_open_link s d rid"
  shows "complete_prayer s now None rid (Some d) =
     (\<lparr>prayer_requests = update_where (\<lambda>r. pr_id r = rid)
          (\<lambda>r. r\<lparr>active_prayers := max (active_prayers r - 1) 0\<rparr>) (prayer_requests s),
       device_prayers = update_where
          (\<lambda>l. dp_device_id l = d \<and> prayer_request_id l = rid \<and> completed_at l = None)
          (\<lambda>l. l\<lparr>completed_at := Some now\<rparr>) (device_prayers s)\<rparr>,
      reply 200 (MessageBody ''Prayer completed successfully''))"
proof -
  have "filter (\<lambda>l. dp_device_id l = d \<and> prayer_request_id l = rid \<and> completed_at l = None)
          (device_prayers s) \<noteq> []"
    using assms(2) by (auto simp: has_open_link_iff filter_empty_conv)
  then show ?thesis using assms(1)
    by (simp add: complete_prayer_def Let_def returning_def)
qed

lemma complete_not_found_iff:
  assumes "d \<noteq> []" and "fl \<noteq> Some 0"
  shows "snd (complete_prayer s now fl rid (Some d)) = not_found_for_device \<longleftrightarrow>
         \<not> has_open_link s d rid"
proof -
  have "filter (\<lambda>l. dp_device_id l = d \<and> prayer_request_id l = rid \<and> completed_at l = None)
          (device_prayers s) = [] \<longleftrightarrow> \<not> has_open_link s d rid"
    by (auto simp: has_open_link_iff filter_empty_conv)
  then show ?thesis using assms
    by (auto simp: complete_prayer_def Let_def returning_def not_found_for_device_def reply_def
          internal_error_def)
qed

text \<open>
  C5. For a device identifier that is present (a missing one is the validation error
  400): complete answers 404 "Prayer not found for this device or already completed" if
  and only if the device has no link to the request with \<open>completed_at\<close> null (given that
  its first statement is not rejected). So a device that never joined gets this 404, with
  the store unchanged. When such a link exists and every statement succeeds, the answer
  is 200 and \<open>completed_at\<close> of the link is set to \<open>now\<close>; a second complete of the pair,
  at any time, gets the same 404 and changes nothing. No later sequence of requests
  (join, start, stop, pray, complete, legacy complete, clean-up, reset; with or without
  storage faults) opens a link of the pair again: every link of the pair that is left has
  its \<open>completed_at\<close>. Here the identifiers of the requests are unique, as the primary
  key makes them.
\<close>

theorem complete_contract:
  assumes "d \<noteq> []"
  shows "(fl \<noteq> Some 0 \<longrightarrow>
            (snd (complete_prayer s now fl rid (Some d)) = not_found_for_device \<longleftrightarrow>
             \<not> has_open_link s d rid)) \<and>
         (\<not> has_link s d rid \<longrightarrow>
            complete_prayer s now None rid (Some d) = (s, not_found_for_device)) \<and>
         (has_open_link s d rid \<and> s1 = fst (complete_prayer s now None rid (Some d)) \<longrightarrow>
            snd (complete_prayer s now None rid (Some d)) =
              reply 200 (MessageBody ''Prayer completed successfully'') \<and>
            device_prayers s1 =
              map (\<lambda>l. if dp_device_id l = d \<and> prayer_request_id l = rid \<and> completed_at l = None
                        then l\<lparr>completed_at := Some now\<rparr> else l) (device_prayers s) \<and>
            has_link s1 d rid \<and> \<not> has_open_link s1 d rid \<and>
            complete_prayer s1 now2 None rid (Some d) = (s1, not_found_for_device) \<and>
            (distinct (map pr_id (prayer_requests s)) \<longrightarrow> \<not> has_open_link (run s1 evs) d rid))"
proof (intro conjI impI)
  assume "fl \<noteq> Some 0"
  then show "snd (complete_prayer s now fl rid (Some d)) = not_found_for_device \<longleftrightarrow>
             \<not> has_open_link s d rid"
    using assms by (simp add: complete_not_found_iff)
next
  assume "\<not> has_link s d rid"
  then have "\<not> has_open_link s d rid" by (auto simp: has_link_iff has_open_link_iff)
  then have "filter (\<lambda>l. dp_device_id l = d \<and> prayer_request_id l = rid \<and> completed_at l = None)
          (device_prayers s) = []"
    by (auto simp: has_open_link_iff filter_empty_conv)
  then show "complete_prayer s now None rid (Some d) = (s, not_found_for_device)"
    using assms by (simp add: complete_prayer_def Let_def returning_def update_where_no_hit)
next
  assume a: "has_open_link s d rid \<and> s1 = fst (complete_prayer s now None rid (Some d))"
  note res = complete_result [OF assms, of s rid now] 
  from a res have s1: "s1 = \<lparr>prayer_requests = update_where (\<lambda>r. pr_id r = rid)
          (\<lambda>r. r\<lparr>active_prayers := max (active_prayers r - 1) 0\<rparr>) (prayer_requests s),
       device_prayers = update_where
          (\<lambda>l. dp_device_id l = d \<and> prayer_request_id l = rid \<and> completed_at l = None)
          (\<lambda>l. l\<lparr>completed_at := Some now\<rparr>) (device_prayers s)\<rparr>"
    by simp
  show "snd (complete_prayer s now None rid (Some d)) =
              reply 200 (MessageBody ''Prayer completed successfully'')"
    using a res by simp
  show "device_prayers s1 =
              map (\<lambda>l. if dp_device_id l = d \<and> prayer_request_id l = rid \<and> completed_at l = None
                        then l\<lparr>completed_at := Some now\<rparr> else l) (device_prayers s)"
    by (simp add: s1 update_where_def)
  have dp1: "device_prayers s1 = update_where
          (\<lambda>l. dp_device_id l = d \<and> prayer_request_id l = rid \<and> completed_at l = None)
          (\<lambda>l. l\<lparr>completed_at := Some now\<rparr>) (device_prayers s)"
    by (simp add: s1)
  have "has_link s d rid" using a by (auto simp: has_link_iff has_open_link_iff)
  then show l: "has_link s1 d rid"
    by (simp only: complete_keeps_links [OF dp1])
  show o: "\<not> has_open_link s1 d rid"
    by (rule complete_closes_pair [OF dp1])
  then have "filter (\<lambda>l. dp_device_id l = d \<and> prayer_request_id l = rid \<and> completed_at l = None)
          (device_prayers s1) = []"
    by (auto simp: has_open_link_iff filter_empty_conv)
  then show "complete_prayer s1 now2 None rid (Some d) = (s1, not_found_for_device)"
    using assms by (simp add: complete_prayer_def Let_def returning_def update_where_no_hit)
  assume dist: "distinct (map pr_id (prayer_requests s))"
  have "map pr_id (prayer_requests s1) = map pr_id (prayer_requests s)"
    by (simp add: s1 map_update_where_inv)
  with dist l o have "pair_settled s1 d rid" by (simp add: pair_settled_def)
  then have "pair_settled (run s1 evs) d rid" by (rule run_pair_settled)
  then show "\<not> has_open_link (run s1 evs) d rid" by (simp add: pair_settled_def)
qed

theorem complete_contract_witness:
  "''A'' \<noteq> [] \<and> has_open_link joined_store ''A'' 1 \<and>
   complete_prayer joined_store 90000 None 1 (Some ''A'') =
     (completed_store, reply 200 (MessageBody ''Prayer completed successfully'')) \<and>
   complete_prayer completed_store 90001 None 1 (Some ''A'') =
     (completed_store, not_found_for_device) \<and>
   distinct (map pr_id (prayer_requests joined_store)) \<and>
   \<not> has_open_link (run completed_store
       [(90002, Join None 1 (Some ''A'')), (90003, Start None 1 (Some ''A'')),
        (90004, Cleanup None), (90005, Join None 1 (Some ''A''))]) ''A'' 1 \<and>
   ''B'' \<noteq> [] \<and> \<not> has_link joined_store ''B'' 1 \<and>
   complete_prayer joined_store 90000 None 1 (Some ''B'') = (joined_store, not_found_for_device)"
proof -
  have c: "complete_prayer joined_store 90000 None 1 (Some ''A'') =
     (completed_store, reply 200 (MessageBody ''Prayer completed successfully''))"
    by (simp add: joined_store_def completed_store_def fresh_request_def
        link_A_def complete_prayer_def Let_def update_where_def returning_def)
  have h: "has_open_link joined_store ''A'' 1" "\<not> has_link joined_store ''B'' 1"
    "distinct (map pr_id (prayer_requests joined_store))"
    by (simp_all add: has_open_link_def has_link_def joined_store_def link_A_def)
  show ?thesis
    using complete_contract [where d = "''A''" and s = joined_store and now = 90000
        and rid = 1 and fl = None and ?s1.0 = completed_store and ?now2.0 = 90001 and evs =
        "[(90002, Join None 1 (Some ''A'')), (90003, Start None 1 (Some ''A'')),
          (90004, Cleanup None), (90005, Join None 1 (Some ''A''))]"]
      complete_contract [where d = "''B''" and s = joined_store and now = 90000
        and rid = 1 and fl = None and ?s1.0 = joined_store and ?now2.0 = 90001 and evs = "[]"]
      c h
    by simp
qed

subsection \<open>The count of a request and its links\<close>

lemma link_count_append:
  "link_count (s\<lparr>device_prayers := device_prayers s @ [l]\<rparr>) rid' =
   link_count s rid' + (if prayer_request_id l = rid' then 1 else 0)"
  by (simp add: link_count_def)

lemma cml_iff: "count_matches_links s \<longleftrightarrow> (\<forall>r\<in>set (prayer_requests s). prayer_count r = link_count s (pr_id r))"
  by (simp add: count_matches_links_def list_all_iff)

lemma link_count_requests_upd [simp]: "link_count (s\<lparr>prayer_requests := rows\<rparr>) rid' = link_count s rid'"
  by (simp add: link_count_def)

lemma link_count_mark:
  "link_count (s\<lparr>device_prayers := update_where P (\<lambda>l. l\<lparr>completed_at := c\<rparr>) (device_prayers s)\<rparr>) rid' = link_count s rid'"
proof -
  have "map prayer_request_id (update_where P (\<lambda>l. l\<lparr>completed_at := c\<rparr>) (device_prayers s)) = map prayer_request_id (device_prayers s)"
    by (simp add: map_update_where_inv)
  then have "filter (\<lambda>i. i = rid') (map prayer_request_id (update_where P (\<lambda>l. l\<lparr>completed_at := c\<rparr>) (device_prayers s)))
     = filter (\<lambda>i. i = rid') (map prayer_request_id (device_prayers s))" by simp
  then have "length (filter (\<lambda>l. prayer_request_id l = rid') (update_where P (\<lambda>l. l\<lparr>completed_at := c\<rparr>) (device_prayers s)))
     = length (filter (\<lambda>l. prayer_request_id l = rid') (device_prayers s))"
    unfolding filter_map by (simp add: comp_def) (metis length_map)
  then show ?thesis by (simp add: link_count_def)
qed

lemma step_count_matches_links:
  assumes "count_matches_links s" and "counted_op op"
  shows "count_matches_links (fst (step s (now, op)))"
proof (cases op)
  case (Join fl rid dev)
  with assms(2) have fl: "fl \<noteq> Some 3" by simp
  show ?thesis using assms(1) fl unfolding Join
    by (auto simp: cml_iff join_prayer_def Let_def link_count_append update_where_def
          split: option.splits if_splits)
next
  case (Start fl rid dev)
  show ?thesis using assms(1) unfolding Start
    by (auto simp: cml_iff start_praying_def Let_def update_where_def split: if_splits)
next
  case (Stop fl rid dev)
  show ?thesis using assms(1) unfolding Stop
    by (auto simp: cml_iff stop_praying_def Let_def update_where_def split: if_splits)
next
  case (Complete fl rid dev)
  show ?thesis using assms(1) unfolding Complete
    by (auto simp: cml_iff complete_prayer_def Let_def link_count_mark update_where_def [of _ _ "prayer_requests _"] split: if_splits)
qed (use assms(2) in simp_all)

text \<open>
  C1, as the code has it. The equality \<open>prayer_count = number of links\<close>, for every
  request, is kept by every sequence of join, start-praying, stop-praying and complete
  requests in which no join has its \<^verbatim>\<open>UPDATE\<close> rejected after its \<^verbatim>\<open>INSERT\<close>.
\<close>

theorem count_matches_links_preserved:
  assumes "count_matches_links s" and "\<forall>ev\<in>set evs. counted_op (snd ev)"
  shows "count_matches_links (run s evs)"
  using assms
proof (induction evs arbitrary: s)
  case Nil then show ?case by simp
next
  case (Cons ev evs)
  obtain now op where ev: "ev = (now, op)" by (cases ev)
  from Cons.prems have "count_matches_links (fst (step s ev))"
    unfolding ev by (intro step_count_matches_links) auto
  with Cons show ?case by simp
qed

theorem count_matches_links_preserved_witness:
  "count_matches_links fresh_store \<and>
   list_all (\<lambda>ev. counted_op (snd ev))
     [(10, Join None 1 (Some ''A'')), (11, Join None 1 (Some ''A'')),
      (12, Start None 1 (Some ''A'')), (13, Join None 1 (Some ''B'')),
      (14, Complete None 1 (Some ''A'')), (15, Stop None 1 (Some ''B''))] \<and>
   count_matches_links (run fresh_store
     [(10, Join None 1 (Some ''A'')), (11, Join None 1 (Some ''A'')),
      (12, Start None 1 (Some ''A'')), (13, Join None 1 (Some ''B'')),
      (14, Complete None 1 (Some ''A'')), (15, Stop None 1 (Some ''B''))])"
  using count_matches_links_preserved [of fresh_store
     "[(10, Join None 1 (Some ''A'')), (11, Join None 1 (Some ''A'')),
       (12, Start None 1 (Some ''A'')), (13, Join None 1 (Some ''B'')),
       (14, Complete None 1 (Some ''A'')), (15, Stop None 1 (Some ''B''))]"]
  by (simp add: count_matches_links_def link_count_def fresh_store_def fresh_request_def)

text \<open>
  C1 as stated fails for the legacy pray: on the fresh request, which has no link and
  \<open>prayer_count = 0\<close>, one pray gives \<open>prayer_count = 1\<close> and still no link.
\<close>

theorem legacy_pray_breaks_count_counterexample:
  "count_matches_links fresh_store \<and> \<not> count_matches_links (fst (pray fresh_store 10 None 1))"
  by (simp add: count_matches_links_def link_count_def fresh_store_def fresh_request_def
        pray_def Let_def update_where_def returning_def is_active_def)

text \<open>
  The two statements of a new join are not one transaction: when the \<^verbatim>\<open>UPDATE\<close> is
  rejected, the link of the \<^verbatim>\<open>INSERT\<close> stays and the count is one short.
\<close>

lemma join_fault_after_insert:
  "count_matches_links fresh_store \<and>
   \<not> count_matches_links (fst (join_prayer fresh_store 10 (Some 3) 1 (Some ''A'')))"
  by (simp add: count_matches_links_def link_count_def fresh_store_def fresh_request_def
        join_prayer_def Let_def is_active_def)

subsection \<open>Statistics\<close>

text \<open>
  What the query computes: a request with \<open>k \<ge> 1\<close> links stands \<open>k\<close> times in the joined
  rows, so its counters are summed \<open>k\<close> times.
\<close>

lemma length_join_rows:
  "length (join_rows dps pr) = max 1 (length (filter (\<lambda>dp. prayer_request_id dp = pr_id pr) dps))"
proof -
  have e: "filter (\<lambda>dp. pr_id pr = prayer_request_id dp) dps = filter (\<lambda>dp. prayer_request_id dp = pr_id pr) dps"
    by (rule filter_cong) auto
  show ?thesis unfolding join_rows_def e
    by (cases "filter (\<lambda>dp. prayer_request_id dp = pr_id pr) dps") simp_all
qed

lemma fst_join_rows: "x \<in> set (join_rows dps pr) \<Longrightarrow> fst x = pr"
  by (auto simp: join_rows_def split: list.splits)

lemma map_fst_join_rows: "map fst (join_rows dps pr) = replicate (length (join_rows dps pr)) pr"
  by (rule replicate_eqI) (auto dest: fst_join_rows)

lemma filter_join_rows:
  "filter (\<lambda>(pr', dp). is_active now pr') (join_rows dps pr) =
     (if is_active now pr then join_rows dps pr else [])"
proof -
  have "filter (\<lambda>x. is_active now (fst x)) (join_rows dps pr) =
     (if is_active now pr then join_rows dps pr else [])"
    by (auto simp: filter_empty_conv dest: fst_join_rows intro!: filter_True)
  then show ?thesis by (simp add: case_prod_unfold)
qed

lemma sum_join_rows:
  "sum_list (map (\<lambda>(pr', dp). g pr') (join_rows dps pr)) = g pr * int (length (join_rows dps pr))"
proof -
  have "map (\<lambda>(pr', dp). g pr') (join_rows dps pr) = map g (map fst (join_rows dps pr))"
    by (simp add: case_prod_unfold comp_def)
  also have "\<dots> = replicate (length (join_rows dps pr)) (g pr)"
    by (subst map_fst_join_rows) simp
  finally show ?thesis by (simp add: sum_list_replicate mult.commute)
qed

lemma stats_rows_sum:
  "sum_list (map (\<lambda>(pr, dp). g pr)
      (filter (\<lambda>(pr, dp). is_active now pr) (left_join_links prs dps))) =
   (\<Sum>r\<leftarrow>filter (is_active now) prs. g r * max 1 (int (length (filter (\<lambda>dp. prayer_request_id dp = pr_id r) dps))))"
proof (induction prs)
  case Nil
  then show ?case by (simp add: left_join_links_def)
next
  case (Cons r prs)
  have "left_join_links (r # prs) dps = join_rows dps r @ left_join_links prs dps"
    by (simp add: left_join_links_def)
  then show ?case using Cons
    by (simp add: filter_join_rows sum_join_rows length_join_rows max_def)
qed

lemma stats_query_sums:
  "fst (stats_query s now) = (\<Sum>r\<leftarrow>filter (is_active now) (prayer_requests s). prayer_count r * max 1 (link_count s (pr_id r)))"
  "fst (snd (stats_query s now)) = (\<Sum>r\<leftarrow>filter (is_active now) (prayer_requests s). active_prayers r * max 1 (link_count s (pr_id r)))"
  by (simp_all add: stats_query_def Let_def stats_rows_sum link_count_def)

text \<open>
  C4. The report should be the sum of \<open>prayer_count\<close>, the sum of \<open>active_prayers\<close> and
  the number of completed links, over the non-expired requests. On the store with one
  non-expired request (\<open>prayer_count = 2\<close>, \<open>active_prayers = 1\<close>) joined by the devices A
  and B, the handler reports 4 and 2 where the sums are 2 and 1: the \<^verbatim>\<open>LEFT JOIN\<close> has
  doubled the request row before \<^verbatim>\<open>SUM\<close> ran.
\<close>

theorem stats_join_fanout:
  "get_stats two_links_store 10 None = reply 200 (StatsBody 4 2 0) \<and>
   stats_spec two_links_store 10 = (2, 1, 0)"
  by (simp add: get_stats_def stats_query_def stats_spec_def left_join_links_def join_rows_def
        two_links_store_def fresh_request_def link_A_def link_B_def is_active_def Let_def)

subsection \<open>Storage faults\<close>

lemma step_failure_body:
  "status (snd (step s ev)) = 500 \<Longrightarrow> body (snd (step s ev)) = ErrorBody ''Internal server error''"
proof (cases ev)
  case (Pair now op)
  assume "status (snd (step s ev)) = 500"
  then show ?thesis unfolding Pair
    by (cases op)
      (auto simp: join_prayer_def start_praying_def pray_def stop_praying_def
          complete_prayer_def complete_legacy_def cleanup_expired_def reset_active_prayers_def
          Let_def reply_def internal_error_def device_id_required_def not_found_or_expired_def
          not_found_for_device_def
          split: option.splits if_splits)
qed

text \<open>
  C9, as the code has it. When its query is rejected, the statistics handler logs the
  fault and answers with status 500 and the body \<open>{0, 0, 0}\<close>: the zero-valued report is
  the body of an error response. Every \<^verbatim>\<open>catch\<close> block of the server answers 500 and
  logs; the one of the statistics handler is the only one whose body is a zero-valued
  report, and a 500 of the participation and maintenance handlers carries
  "Internal server error".
\<close>

theorem stats_failure_report:
  "get_stats s now (Some 0) =
     \<lparr>status = 500, body = StatsBody 0 0 0, logged = [''Error fetching prayer stats:'']\<rparr> \<and>
   status (on_failure e) = 500 \<and> logged (on_failure e) \<noteq> [] \<and>
   (body (on_failure e) = StatsBody 0 0 0 \<longleftrightarrow> e = GET_stats) \<and>
   (status (snd (step s ev)) = 500 \<longrightarrow>
      body (snd (step s ev)) = ErrorBody ''Internal server error'')"
proof -
  have "status (on_failure e) = 500 \<and> logged (on_failure e) \<noteq> [] \<and>
   (body (on_failure e) = StatsBody 0 0 0 \<longleftrightarrow> e = GET_stats)"
    by (cases e) (simp_all add: internal_error_def)
  then show ?thesis using step_failure_body by (simp add: get_stats_def)
qed

theorem stats_failure_report_witness:
  "get_stats fresh_store 10 (Some 0) = on_failure GET_stats \<and>
   status (snd (step fresh_store (10, Pray (Some 0) 1))) = 500 \<and>
   body (snd (step fresh_store (10, Pray (Some 0) 1))) = ErrorBody ''Internal server error''"
  using stats_failure_report [of fresh_store 10 GET_stats "(10, Pray (Some 0) 1)"]
  by (simp add: pray_def internal_error_def)

text \<open>
  C9 as stated fails: the failure does reach the caller as an error, the response has
  status 500.
\<close>

theorem stats_failure_status_counterexample:
  "status (get_stats fresh_store 10 (Some 0)) = 500 \<and>
   body (get_stats fresh_store 10 (Some 0)) = StatsBody 0 0 0"
  by (simp add: get_stats_def)

subsection \<open>The topic catalog\<close>

lemma catalog_ok_ids: "catalog_ok ts \<Longrightarrow> distinct (map t_id ts)"
  by (simp add: catalog_ok_def)

lemma catalog_ok_titles: "catalog_ok ts \<Longrightarrow> distinct (map title (filter (\<lambda>m. parent_id m = None) ts))"
  by (simp add: catalog_ok_def)

lemma catalog_ok_main:
  assumes "catalog_ok ts" and "m \<in> set ts" and "parent_id m = None"
  shows "\<not> is_array_index (title m)" and "title m \<notin> set object_prototype_keys"
  using assms by (auto simp: catalog_ok_def list_all_iff)

lemma catalog_ok_sub:
  assumes "catalog_ok ts" and "c \<in> set ts" and "parent_id c = Some p"
  shows "p \<noteq> 0" and "\<exists>m\<in>set ts. t_id m = p \<and> parent_id m = None"
  using assms by (auto simp: catalog_ok_def list_all_iff list_ex_iff)

lemma filter_key_unique:
  "distinct (map f xs) \<Longrightarrow> m \<in> set xs \<Longrightarrow> filter (\<lambda>p. f m = f p) xs = [m]"
proof (induction xs)
  case Nil then show ?case by simp
next
  case (Cons x xs)
  show ?case
  proof (cases "x = m")
    case True
    with Cons.prems have "\<forall>p\<in>set xs. f m \<noteq> f p" by auto
    then have "filter (\<lambda>p. f m = f p) xs = []" by (simp add: filter_empty_conv)
    with True show ?thesis by simp
  next
    case False
    with Cons.prems have m: "m \<in> set xs" and "f x \<noteq> f m" by auto
    with Cons show ?thesis by simp
  qed
qed

lemma topic_rows_main: "parent_id pt = None \<Longrightarrow> topic_rows ts pt = [make_row pt None]"
  by (simp add: topic_rows_def)

lemma topic_rows_sub:
  assumes "distinct (map t_id ts)" and "m \<in> set ts" and "parent_id c = Some (t_id m)"
  shows "topic_rows ts c = [make_row c (Some m)]"
proof -
  have "filter (\<lambda>p. parent_id c = Some (t_id p)) ts = filter (\<lambda>p. t_id m = t_id p) ts"
    using assms(3) by simp
  also have "\<dots> = [m]" using assms(1,2) by (rule filter_key_unique)
  finally show ?thesis by (simp add: topic_rows_def)
qed

lemma order_key_main: "parent_id m = None \<Longrightarrow> order_key (make_row m p) = (t_id m, 0, t_id m)"
  by (simp add: order_key_def make_row_def)

lemma order_key_sub: "parent_id c = Some q \<Longrightarrow> order_key (make_row c p) = (q, 1, t_id c)"
  by (simp add: order_key_def make_row_def)

lemma r_id_make_row [simp]: "r_id (make_row c p) = t_id c"
  by (simp add: make_row_def)

lemma set_main_topics: "set (main_topics ts) = {m \<in> set ts. parent_id m = None}"
  by (auto simp: main_topics_def)

lemma set_children: "set (children ts m) = {c \<in> set ts. parent_id c = Some (t_id m)}"
  by (auto simp: children_def)

lemma distinct_map_sort_key: "distinct (map f (sort_key f xs)) = distinct (map f xs)"
  by (induction xs) (simp_all add: distinct_insort_key)

lemma strict_sorted_sort_key:
  "distinct (map f xs) \<Longrightarrow> sorted_wrt (<) (map f (sort_key f xs))"
  by (simp add: strict_sorted_iff distinct_map_sort_key)

lemma strict_main_topics: "distinct (map t_id ts) \<Longrightarrow> sorted_wrt (<) (map t_id (main_topics ts))"
  unfolding main_topics_def by (intro strict_sorted_sort_key distinct_map_filter)

lemma strict_children: "distinct (map t_id ts) \<Longrightarrow> sorted_wrt (<) (map t_id (children ts m))"
  unfolding children_def by (intro strict_sorted_sort_key distinct_map_filter)

lemma sorted_wrt_concat_map:
  assumes "\<And>m. m \<in> set ms \<Longrightarrow> sorted_wrt R (f m)"
      and "sorted_wrt (\<lambda>m m'. \<forall>x\<in>set (f m). \<forall>y\<in>set (f m'). R x y) ms"
  shows "sorted_wrt R (concat (map f ms))"
  using assms by (induction ms) (auto simp: sorted_wrt_append)


lemma keys_family_rows:
  assumes "parent_id m = None"
  shows "map order_key (family_rows ts m) =
           (t_id m, 0, t_id m) # map (\<lambda>c. (t_id m, 1, t_id c)) (children ts m)"
proof -
  have "order_key (make_row c (Some m)) = (t_id m, 1, t_id c)" if "c \<in> set (children ts m)" for c
    using that by (intro order_key_sub) (simp add: set_children)
  then show ?thesis
    using assms by (simp add: family_rows_def order_key_main)
qed

lemma strict_family_rows:
  assumes "distinct (map t_id ts)" and "parent_id m = None"
  shows "sorted_wrt (<) (map order_key (family_rows ts m))"
proof -
  have "sorted_wrt (\<lambda>x y. t_id x < t_id y) (children ts m)"
    using strict_children [OF assms(1), of m] by (simp add: sorted_wrt_map)
  then have "sorted_wrt (\<lambda>x y. (t_id m, 1::nat, t_id x) < (t_id m, 1, t_id y)) (children ts m)"
    by (rule sorted_wrt_mono_rel [rotated]) simp
  then show ?thesis
    unfolding keys_family_rows [OF assms(2)] by (simp add: sorted_wrt_map)
qed

lemma fst_key_family_rows:
  assumes "parent_id m = None" and "k \<in> set (map order_key (family_rows ts m))"
  shows "fst k = t_id m"
  using assms(2) unfolding keys_family_rows [OF assms(1)] by auto

lemma strict_target:
  assumes "distinct (map t_id ts)"
  shows "sorted_wrt (<) (map order_key (concat (map (family_rows ts) (main_topics ts))))"
proof -
  let ?f = "\<lambda>m. map order_key (family_rows ts m)"
  have mains: "parent_id m = None" if "m \<in> set (main_topics ts)" for m
    using that by (simp add: set_main_topics)
  have blocks: "sorted_wrt (<) (?f m)" if "m \<in> set (main_topics ts)" for m
    using strict_family_rows [OF assms mains [OF that]] .
  have "sorted_wrt (\<lambda>m m'. t_id m < t_id m') (main_topics ts)"
    using strict_main_topics [OF assms] by (simp add: sorted_wrt_map)
  then have across: "sorted_wrt (\<lambda>m m'. \<forall>x\<in>set (?f m). \<forall>y\<in>set (?f m'). x < y) (main_topics ts)"
  proof (rule sorted_wrt_mono_rel [rotated])
    fix m m' assume m: "m \<in> set (main_topics ts)" and m': "m' \<in> set (main_topics ts)"
      and lt: "t_id m < t_id m'"
    show "\<forall>x\<in>set (?f m). \<forall>y\<in>set (?f m'). x < y"
    proof (intro ballI)
      fix x y assume "x \<in> set (?f m)" and "y \<in> set (?f m')"
      then have "fst x = t_id m" and "fst y = t_id m'"
        using fst_key_family_rows [OF mains [OF m]] fst_key_family_rows [OF mains [OF m']] by auto
      with lt show "x < y" by (simp add: less_prod_def)
    qed
  qed
  have "sorted_wrt (<) (concat (map ?f (main_topics ts)))"
    using blocks across by (rule sorted_wrt_concat_map)
  then show ?thesis by (simp add: map_concat comp_def)
qed

lemma rows_of_topic:
  assumes ok: "catalog_ok ts" and pt: "pt \<in> set ts"
  shows "(parent_id pt = None \<and> topic_rows ts pt = [make_row pt None]) \<or>
         (\<exists>m\<in>set ts. parent_id m = None \<and> parent_id pt = Some (t_id m) \<and>
             topic_rows ts pt = [make_row pt (Some m)])"
proof (cases "parent_id pt")
  case None
  then show ?thesis by (simp add: topic_rows_main)
next
  case (Some p)
  from catalog_ok_sub(2) [OF ok pt Some] obtain m where m: "m \<in> set ts" "t_id m = p" "parent_id m = None"
    by blast
  with Some have "parent_id pt = Some (t_id m)" by simp
  from topic_rows_sub [OF catalog_ok_ids [OF ok] m(1) this] this m show ?thesis by blast
qed

lemma set_rows:
  assumes ok: "catalog_ok ts"
  shows "set (concat (map (topic_rows ts) ts)) =
         set (concat (map (family_rows ts) (main_topics ts)))" (is "?L = ?R")
proof (intro equalityI subsetI)
  fix x assume "x \<in> ?L"
  then obtain pt where pt: "pt \<in> set ts" and x: "x \<in> set (topic_rows ts pt)" by auto
  from rows_of_topic [OF ok pt] show "x \<in> ?R"
  proof (elim disjE conjE bexE)
    assume "parent_id pt = None" "topic_rows ts pt = [make_row pt None]"
    with x pt have "pt \<in> set (main_topics ts)" "x \<in> set (family_rows ts pt)"
      by (simp_all add: set_main_topics family_rows_def)
    then show ?thesis by auto
  next
    fix m assume "m \<in> set ts" "parent_id m = None" "parent_id pt = Some (t_id m)"
      "topic_rows ts pt = [make_row pt (Some m)]"
    with x pt have "m \<in> set (main_topics ts)" "x \<in> set (family_rows ts m)"
      by (simp_all add: set_main_topics family_rows_def set_children)
    then show ?thesis by auto
  qed
next
  fix x assume "x \<in> ?R"
  then obtain m where m: "m \<in> set ts" "parent_id m = None" and x: "x \<in> set (family_rows ts m)"
    by (auto simp: set_main_topics)
  from x consider "x = make_row m None"
    | c where "c \<in> set ts" "parent_id c = Some (t_id m)" "x = make_row c (Some m)"
    by (auto simp: family_rows_def set_children)
  then show "x \<in> ?L"
  proof cases
    case 1
    with topic_rows_main [OF m(2), of ts] have "x \<in> set (topic_rows ts m)" by simp
    with m(1) show ?thesis by auto
  next
    case 2
    with topic_rows_sub [OF catalog_ok_ids [OF ok] m(1) 2(2)]
    have "x \<in> set (topic_rows ts c)" by simp
    with 2(1) show ?thesis by auto
  qed
qed

lemma ids_rows:
  assumes ok: "catalog_ok ts"
  shows "map r_id (concat (map (topic_rows ts) ts)) = map t_id ts"
proof -
  have one: "map r_id (topic_rows ts pt) = [t_id pt]" if "pt \<in> set ts" for pt
    using rows_of_topic [OF ok that] by auto
  have "map r_id (concat (map (topic_rows ts) xs)) = map t_id xs" if "set xs \<subseteq> set ts" for xs
    using that by (induction xs) (simp_all add: one)
  then show ?thesis by simp
qed

lemma distinct_map_outer: "distinct (map (\<lambda>x. g (f x)) xs) \<Longrightarrow> distinct (map f xs)"
  by (induction xs) auto

lemma distinct_keys_rows:
  assumes ok: "catalog_ok ts"
  shows "distinct (map order_key (concat (map (topic_rows ts) ts)))"
proof -
  let ?rows = "concat (map (topic_rows ts) ts)"
  have "distinct (map r_id ?rows)"
    using catalog_ok_ids [OF ok] by (simp add: ids_rows [OF ok])
  moreover have "map r_id ?rows = map (\<lambda>r. snd (snd (order_key r))) ?rows"
    by (simp add: order_key_def)
  ultimately have "distinct (map (\<lambda>r. snd (snd (order_key r))) ?rows)" by simp
  then show ?thesis by (rule distinct_map_outer)
qed

lemma topics_query_families:
  assumes ok: "catalog_ok ts"
  shows "topics_query ts = concat (map (family_rows ts) (main_topics ts))"
  unfolding topics_query_def
proof (rule map_sorted_distinct_set_unique [where f = order_key])
  let ?rows = "concat (map (topic_rows ts) ts)"
  let ?target = "concat (map (family_rows ts) (main_topics ts))"
  have "inj_on order_key (set ?rows)"
    using distinct_keys_rows [OF ok] by (simp add: distinct_map)
  moreover have "set (sort_key order_key ?rows) \<union> set ?target = set ?rows"
    by (simp only: set_sort set_rows [OF ok] Un_absorb)
  ultimately show "inj_on order_key (set (sort_key order_key ?rows) \<union> set ?target)"
    by (simp only:)
  show "sorted (map order_key (sort_key order_key ?rows))" by simp
  show "distinct (map order_key (sort_key order_key ?rows))"
    using distinct_keys_rows [OF ok] by (simp add: distinct_map_sort_key)
  from strict_target [OF catalog_ok_ids [OF ok]]
  show "sorted (map order_key ?target)" "distinct (map order_key ?target)"
    by (simp_all add: strict_sorted_iff)
  show "set (sort_key order_key ?rows) = set ?target"
    by (simp only: set_sort set_rows [OF ok])
qed


lemma map_of_last_entry:
  assumes "k \<notin> fst ` set acc"
  shows "map_of (acc @ [(k, g)]) k = Some g"
proof -
  from assms have "map_of acc k = None" by (simp add: map_of_eq_None_iff)
  then show ?thesis by (simp add: map_add_def)
qed

lemma set_property_last_entry:
  assumes "k \<notin> fst ` set acc"
  shows "set_property k g' (acc @ [(k, g)]) = acc @ [(k, g')]"
proof -
  have "map (\<lambda>(k', g''). if k' = k then (k', g') else (k', g'')) acc = acc"
    using assms by (intro map_idI) (auto simp: image_iff)
  then show ?thesis by (simp add: set_property_def)
qed

lemma add_topic_main:
  assumes "parent_id m = None" and "map_of cat (title m) = None"
    and "title m \<notin> set object_prototype_keys"
  shows "add_topic cat (make_row m None) =
           Inr (cat @ [(title m, \<lparr>g_id = t_id m, g_title = Some (title m), subcategories = []\<rparr>)])"
  using assms by (simp add: add_topic_def make_row_def Let_def)

lemma add_topic_sub:
  assumes "parent_id c = Some (t_id m)" and "t_id m \<noteq> 0" and "title m \<notin> fst ` set acc"
  shows "add_topic (acc @ [(title m, g)]) (make_row c (Some m)) =
           Inr (acc @ [(title m, g\<lparr>subcategories := subcategories g @
                  [\<lparr>sub_id = t_id c, sub_title = title c\<rparr>]\<rparr>)])"
proof -
  have row: "main_category (make_row c (Some m)) = Some (title m)"
    "r_parent_id (make_row c (Some m)) = Some (t_id m)"
    "r_id (make_row c (Some m)) = t_id c" "r_title (make_row c (Some m)) = title c"
    using assms(1) by (simp_all add: make_row_def)
  note look = map_of_last_entry [OF assms(3), of g]
  show ?thesis
    unfolding add_topic_def Let_def row property_key.simps
    using assms(2) by (simp only: look set_property_last_entry [OF assms(3)] truthy.simps
        option.simps if_True if_False simp_thms)
qed

lemma group_topics_subs:
  assumes "\<forall>c\<in>set cs. parent_id c = Some (t_id m) \<and> t_id m \<noteq> 0"
    and "title m \<notin> fst ` set acc"
  shows "group_topics (acc @ [(title m, g)]) (map (\<lambda>c. make_row c (Some m)) cs @ rest) =
         group_topics (acc @ [(title m, g\<lparr>subcategories := subcategories g @
            map (\<lambda>c. \<lparr>sub_id = t_id c, sub_title = title c\<rparr>) cs\<rparr>)]) rest"
  using assms(1)
proof (induction cs arbitrary: g)
  case Nil
  then show ?case by simp
next
  case (Cons c cs)
  from Cons.prems have c: "parent_id c = Some (t_id m)" "t_id m \<noteq> 0"
    and cs: "\<forall>c\<in>set cs. parent_id c = Some (t_id m) \<and> t_id m \<noteq> 0" by auto
  show ?case
    by (simp add: add_topic_sub [OF c assms(2)] Cons.IH [OF cs])
qed


lemma group_topics_family:
  assumes main: "parent_id m = None" and fresh: "title m \<notin> fst ` set acc"
    and proto: "title m \<notin> set object_prototype_keys"
    and subs: "\<forall>c\<in>set (children ts m). t_id m \<noteq> 0"
  shows "group_topics acc (family_rows ts m @ rest) =
         group_topics (acc @ [(title m, group_of ts m)]) rest"
proof -
  let ?g = "\<lparr>g_id = t_id m, g_title = Some (title m), subcategories = []\<rparr>"
  from fresh have none: "map_of acc (title m) = None" by (simp add: map_of_eq_None_iff)
  have cs: "\<forall>c\<in>set (children ts m). parent_id c = Some (t_id m) \<and> t_id m \<noteq> 0"
    using subs by (simp add: set_children)
  have "group_topics acc (family_rows ts m @ rest) =
        group_topics (acc @ [(title m, ?g)]) (map (\<lambda>c. make_row c (Some m)) (children ts m) @ rest)"
    by (simp add: family_rows_def add_topic_main [OF main none proto])
  also have "\<dots> = group_topics (acc @ [(title m, ?g\<lparr>subcategories := subcategories ?g @
            map (\<lambda>c. \<lparr>sub_id = t_id c, sub_title = title c\<rparr>) (children ts m)\<rparr>)]) rest"
    by (rule group_topics_subs [OF cs fresh])
  also have "?g\<lparr>subcategories := subcategories ?g @
            map (\<lambda>c. \<lparr>sub_id = t_id c, sub_title = title c\<rparr>) (children ts m)\<rparr> = group_of ts m"
    by (simp add: group_of_def)
  finally show ?thesis .
qed

lemma group_topics_families:
  assumes "\<forall>m\<in>set ms. parent_id m = None \<and> title m \<notin> set object_prototype_keys \<and>
             (\<forall>c\<in>set (children ts m). t_id m \<noteq> 0)"
    and "distinct (map title ms)" and "title ` set ms \<inter> fst ` set acc = {}"
  shows "group_topics acc (concat (map (family_rows ts) ms)) =
         Inr (acc @ map (\<lambda>m. (title m, group_of ts m)) ms)"
  using assms
proof (induction ms arbitrary: acc)
  case Nil
  then show ?case by simp
next
  case (Cons m ms)
  from Cons.prems(1) have m: "parent_id m = None" "title m \<notin> set object_prototype_keys"
      "\<forall>c\<in>set (children ts m). t_id m \<noteq> 0"
    and ms: "\<forall>m\<in>set ms. parent_id m = None \<and> title m \<notin> set object_prototype_keys \<and>
             (\<forall>c\<in>set (children ts m). t_id m \<noteq> 0)"
    by auto
  from Cons.prems(3) have fresh: "title m \<notin> fst ` set acc" by auto
  from Cons.prems(2) have d: "distinct (map title ms)" and new: "title m \<notin> title ` set ms" by auto
  have disj: "title ` set ms \<inter> fst ` set (acc @ [(title m, group_of ts m)]) = {}"
    using Cons.prems(3) new by auto
  have "group_topics acc (concat (map (family_rows ts) (m # ms))) =
        group_topics (acc @ [(title m, group_of ts m)]) (concat (map (family_rows ts) ms))"
    using group_topics_family [OF m(1) fresh m(2,3)] by simp
  also have "\<dots> = Inr ((acc @ [(title m, group_of ts m)]) @ map (\<lambda>m. (title m, group_of ts m)) ms)"
    by (rule Cons.IH [OF ms d disj])
  finally show ?case by simp
qed

lemma distinct_map_insort_key:
  "distinct (map g (insort_key f x ys)) = (g x \<notin> g ` set ys \<and> distinct (map g ys))"
  by (induction ys) (auto simp: set_insort_key)

lemma distinct_map_sort_key_other: "distinct (map g (sort_key f xs)) = distinct (map g xs)"
  by (induction xs) (simp_all add: distinct_map_insort_key)

lemma object_values_plain:
  assumes "\<forall>k\<in>fst ` set cat. \<not> is_array_index k"
  shows "object_values cat = map snd cat"
proof -
  have "filter (\<lambda>(k, g). is_array_index k) cat = []"
    using assms by (auto simp: filter_empty_conv)
  moreover have "filter (\<lambda>(k, g). \<not> is_array_index k) cat = cat"
    using assms by (intro filter_True) auto
  ultimately show ?thesis by (simp add: object_values_def)
qed

text \<open>
  C8, as the code has it. Let the identifiers of the topics be unique, let every
  \<open>parent_id\<close> name a main category whose identifier is not 0, and let the titles of the
  main categories be pairwise different, no array indices and no property names of
  \<^verbatim>\<open>Object.prototype\<close>. Then the handler answers 200 with one group
  \<open>{id, title, subcategories}\<close> per main category, in ascending order of the identifiers of
  the main categories; a group holds exactly the subcategories of its main category (in
  ascending order of their identifiers), so a main category without subcategories is a
  group with an empty list.
\<close>

theorem catalog_groups:
  assumes "catalog_ok ts"
  shows "get_prayer_topics ts None = reply 200 (TopicsBody (catalog_spec ts))"
proof -
  let ?cat = "map (\<lambda>m. (title m, group_of ts m)) (main_topics ts)"
  have mains: "\<forall>m\<in>set (main_topics ts). parent_id m = None \<and>
      title m \<notin> set object_prototype_keys \<and> (\<forall>c\<in>set (children ts m). t_id m \<noteq> 0)"
  proof (intro ballI conjI)
    fix m assume "m \<in> set (main_topics ts)"
    then have m: "m \<in> set ts" "parent_id m = None" by (simp_all add: set_main_topics)
    show "parent_id m = None" by fact
    show "title m \<notin> set object_prototype_keys" by (rule catalog_ok_main(2) [OF assms m])
    fix c assume "c \<in> set (children ts m)"
    then have "c \<in> set ts" "parent_id c = Some (t_id m)" by (simp_all add: set_children)
    then show "t_id m \<noteq> 0" by (rule catalog_ok_sub(1) [OF assms])
  qed
  have dist: "distinct (map title (main_topics ts))"
    unfolding main_topics_def distinct_map_sort_key_other by (rule catalog_ok_titles [OF assms])
  have "group_topics [] (topics_query ts) = Inr ([] @ ?cat)"
    unfolding topics_query_families [OF assms]
    by (rule group_topics_families [OF mains dist]) simp
  moreover have "object_values ?cat = map snd ?cat"
  proof (rule object_values_plain, intro ballI)
    fix k assume "k \<in> fst ` set ?cat"
    then obtain m where "m \<in> set (main_topics ts)" "k = title m" by auto
    then have "m \<in> set ts" "parent_id m = None" "k = title m" by (simp_all add: set_main_topics)
    then show "\<not> is_array_index k" using catalog_ok_main(1) [OF assms] by simp
  qed
  moreover have "map snd ?cat = catalog_spec ts"
    by (simp add: catalog_spec_def comp_def)
  ultimately show ?thesis by (simp add: get_prayer_topics_def)
qed


text \<open>The scenario of the specification: the topics 1 "Job" and 16 "I just lost my job".\<close>

theorem catalog_groups_witness:
  "catalog_ok job_topics \<and>
   get_prayer_topics job_topics None =
     reply 200 (TopicsBody
       [\<lparr>g_id = 1, g_title = Some ''Job'',
         subcategories = [\<lparr>sub_id = 16, sub_title = ''I just lost my job''\<rparr>]\<rparr>])"
proof -
  have ok: "catalog_ok job_topics"
    by code_simp
  have spec: "catalog_spec job_topics =
       [\<lparr>g_id = 1, g_title = Some ''Job'',
         subcategories = [\<lparr>sub_id = 16, sub_title = ''I just lost my job''\<rparr>]\<rparr>]"
    by code_simp
  show ?thesis using catalog_groups [OF ok] ok spec by simp
qed

text \<open>
  C8 as stated fails when two main categories have the same title: the handler keys the
  groups by the title, so the topics 1 "Job" and 2 "Job" give one group, not two.
\<close>

theorem same_title_groups_merge_counterexample:
  "get_prayer_topics twin_topics None =
     reply 200 (TopicsBody [\<lparr>g_id = 1, g_title = Some ''Job'', subcategories = []\<rparr>]) \<and>
   catalog_spec twin_topics =
     [\<lparr>g_id = 1, g_title = Some ''Job'', subcategories = []\<rparr>,
      \<lparr>g_id = 2, g_title = Some ''Job'', subcategories = []\<rparr>]"
  by code_simp

text \<open>
  The other conditions are needed as well: \<^verbatim>\<open>Object.values\<close> moves a group whose title is
  an array index to the front, and a main category named like a property of
  \<^verbatim>\<open>Object.prototype\<close> gets no group (its subcategories make the handler fail).
\<close>

lemma numeric_title_comes_first:
  "get_prayer_topics
     [\<lparr>t_id = 1, title = ''Job'', category = ''main'', parent_id = None\<rparr>,
      \<lparr>t_id = 2, title = ''7'', category = ''main'', parent_id = None\<rparr>] None =
   reply 200 (TopicsBody
     [\<lparr>g_id = 2, g_title = Some ''7'', subcategories = []\<rparr>,
      \<lparr>g_id = 1, g_title = Some ''Job'', subcategories = []\<rparr>])"
  by code_simp

lemma prototype_title_has_no_group:
  "get_prayer_topics
     [\<lparr>t_id = 1, title = ''toString'', category = ''main'', parent_id = None\<rparr>] None =
   reply 200 (TopicsBody []) \<and>
   get_prayer_topics
     [\<lparr>t_id = 1, title = ''toString'', category = ''main'', parent_id = None\<rparr>,
      \<lparr>t_id = 2, title = ''x'', category = ''sub'', parent_id = Some 1\<rparr>] None =
   on_failure GET_prayer_topics"
  by code_simp

end
